theory Spec2Isabelle
  imports Complex_Main "HOL-Library.Sublist"
begin

section \<open>Text\<close>

text \<open>
  A Python \<open>str\<close> that the program reads (a URL, a user name, a text of a decoded
  response) is modelled as a \<^typ>\<open>string\<close>, one \<^typ>\<open>char\<close> per code point; the model
  covers code points below 256 there. A text that the program writes into a message (a
  template, a personalized message) is a list of code points, since capitalizing a name
  can lead out of that range.
\<close>

type_synonym pytext = "nat list"

definition codes :: "string \<Rightarrow> pytext" where
  "codes s = map of_char s"

text \<open>\<open>str.isspace\<close> on one character, which is also the class \<open>\s\<close> of \<open>re\<close>:
  TAB, LF, VT, FF, CR, FS, GS, RS, US, SPACE, NEL and NBSP.\<close>

definition py_isspace :: "char \<Rightarrow> bool" where
  "py_isspace c = (of_char c \<in> {9, 10, 11, 12, 13, 28, 29, 30, 31, 32, 133, 160 :: nat})"

section \<open>Profile finder\<close>

subsection \<open>The profile pattern\<close>

text \<open>
  \<^verbatim>\<open>profile_pattern = re.compile(r'(https?://.*?linkedin\.com/in/[^/\s]+)/?(?:\s|$)')\<close>

  The pattern is embedded as the backtracking matcher that \<open>re\<close> runs, one function for
  each piece of the pattern, read from right to left. A function that returns a
  \<^typ>\<open>string option\<close> returns the text of group 1 from its position onwards.
\<close>

text \<open>\<^verbatim>\<open>(?:\s|$)\<close>: a whitespace character, or the end of the text (\<open>$\<close> also matches in
  front of a final line feed, which \<open>\s\<close> has matched already).\<close>

definition at_boundary :: "string \<Rightarrow> bool" where
  "at_boundary s = (case s of [] \<Rightarrow> True | c # _ \<Rightarrow> py_isspace c)"

text \<open>\<^verbatim>\<open>/?(?:\s|$)\<close>: the optional slash is greedy, so the branch with the slash is tried
  first and the branch without it second.\<close>

definition trailer :: "string \<Rightarrow> bool" where
  "trailer s =
     ((case s of [] \<Rightarrow> False | c # r \<Rightarrow> c = CHR ''/'' \<and> at_boundary r) \<or> at_boundary s)"

text \<open>\<^verbatim>\<open>[^/\s]\<close>\<close>

definition seg_char :: "char \<Rightarrow> bool" where
  "seg_char c = (c \<noteq> CHR ''/'' \<and> \<not> py_isspace c)"

text \<open>\<^verbatim>\<open>[^/\s]+\<close> followed by the trailer: the greedy \<open>+\<close> takes the longest run first and
  gives characters back one at a time, down to a run of one.\<close>

fun segment_back :: "nat \<Rightarrow> string \<Rightarrow> string option" where
  "segment_back 0 s = None"
| "segment_back (Suc n) s =
     (if trailer (drop (Suc n) s) then Some (take (Suc n) s) else segment_back n s)"

definition segment :: "string \<Rightarrow> string option" where
  "segment s = segment_back (length (takeWhile seg_char s)) s"

text \<open>\<^verbatim>\<open>linkedin\.com/in/\<close> and what follows it.\<close>

definition linkedin_in :: "string \<Rightarrow> string option" where
  "linkedin_in s =
     (if prefix ''linkedin.com/in/'' s
      then map_option ((@) ''linkedin.com/in/'') (segment (drop 16 s))
      else None)"

text \<open>\<^verbatim>\<open>.*?\<close> and what follows it: the lazy star first tries to go on with the rest of the
  pattern, and only when that fails takes one more character, which must not be a line
  feed.\<close>

fun lazy_any :: "string \<Rightarrow> string option" where
  "lazy_any [] = linkedin_in []"
| "lazy_any (c # cs) =
     (case linkedin_in (c # cs) of
        Some g \<Rightarrow> Some g
      | None \<Rightarrow> if c = CHR 0x0A then None else map_option ((#) c) (lazy_any cs))"

text \<open>\<^verbatim>\<open>https?://\<close> and what follows it, at a fixed start position.\<close>

definition match_here :: "string \<Rightarrow> string option" where
  "match_here s =
     (if prefix ''https://'' s then map_option ((@) ''https://'') (lazy_any (drop 8 s))
      else if prefix ''http://'' s then map_option ((@) ''http://'') (lazy_any (drop 7 s))
      else None)"

text \<open>\<^verbatim>\<open>matches = profile_pattern.findall(url)\<close> and then \<^verbatim>\<open>matches[0]\<close> under
  \<^verbatim>\<open>if matches:\<close>: group 1 of the leftmost match, \<open>None\<close> when the list is empty.\<close>

fun first_match :: "string \<Rightarrow> string option" where
  "first_match [] = match_here []"
| "first_match (c # cs) =
     (case match_here (c # cs) of Some g \<Rightarrow> Some g | None \<Rightarrow> first_match cs)"

subsection \<open>The search\<close>

text \<open>
  What the run does besides returning its list: each call of \<open>progress_bar.progress\<close>
  (and the creation of the bar at 0), each call of the search provider, each profile
  appended to the list, and each pacing delay. Progress fractions are Python floats in
  the source and rationals here.
\<close>

datatype event = Progress rat | Search string | Found string | Sleep

record engine =
  profile_urls :: "string list"
  events :: "event list"

definition emit :: "event \<Rightarrow> engine \<Rightarrow> engine" where
  "emit e s = s\<lparr>events := events s @ [e]\<rparr>"

definition append_profile :: "string \<Rightarrow> engine \<Rightarrow> engine" where
  "append_profile profile_url s =
     emit (Found profile_url) (s\<lparr>profile_urls := profile_urls s @ [profile_url]\<rparr>)"

text \<open>The search provider: a query gives the list of result URLs, or raises.\<close>

datatype search_error = SearchError string

type_synonym search_client = "string \<Rightarrow> search_error + string list"

text \<open>The end of one iteration of the loop over the results of a targeted query
  (lines 135 to 140): \<open>i\<close> is the index of the query, \<open>nq\<close> is \<open>len(queries)\<close>, \<open>j\<close>
  the index of the result and \<open>len_results\<close> is \<open>len(search_results)\<close>.\<close>

definition targeted_tick :: "nat \<Rightarrow> nat \<Rightarrow> nat \<Rightarrow> nat \<Rightarrow> engine \<Rightarrow> engine" where
  "targeted_tick nq i len_results j s =
     (let sub_progress = (of_nat i + (of_nat j + 1) / of_nat len_results) / of_nat nq * (1 / 2)
      in emit Sleep (emit (Progress (min (1 / 2 + sub_progress) (9 / 10))) s))"

text \<open>The loop over the results of a targeted query (lines 119 to 140). The flag is
  \<open>True\<close> when the loop left the whole function through \<open>return profile_urls\<close>.\<close>

fun scan_targeted ::
  "int \<Rightarrow> nat \<Rightarrow> nat \<Rightarrow> nat \<Rightarrow> nat \<Rightarrow> string list \<Rightarrow> engine \<Rightarrow> bool \<times> engine" where
  "scan_targeted num_results nq i len_results j [] s = (False, s)"
| "scan_targeted num_results nq i len_results j (url # rest) s =
     (case first_match url of
        None \<Rightarrow> scan_targeted num_results nq i len_results (Suc j) rest (targeted_tick nq i len_results j s)
      | Some profile_url \<Rightarrow>
          if profile_url \<notin> set (profile_urls s) then
            (let s1 = append_profile profile_url s in
             if int (length (profile_urls s1)) \<ge> num_results
             then (True, emit (Progress 1) s1)
             else scan_targeted num_results nq i len_results (Suc j) rest
                    (targeted_tick nq i len_results j s1))
          else scan_targeted num_results nq i len_results (Suc j) rest
                 (targeted_tick nq i len_results j s))"

text \<open>The loop over the targeted queries (lines 110 to 146). A query that raises is
  logged and skipped.\<close>

fun run_queries ::
  "search_client \<Rightarrow> int \<Rightarrow> nat \<Rightarrow> nat \<Rightarrow> string list \<Rightarrow> engine \<Rightarrow> bool \<times> engine" where
  "run_queries search num_results nq i [] s = (False, s)"
| "run_queries search num_results nq i (query # qs) s =
     (let s1 = emit (Search query) (emit (Progress (of_nat i / of_nat nq * (1 / 2))) s) in
      case search query of
        Inl e \<Rightarrow> run_queries search num_results nq (Suc i) qs s1
      | Inr search_results \<Rightarrow>
          (case scan_targeted num_results nq i (length search_results) 0 search_results s1 of
             (True, s2) \<Rightarrow> (True, s2)
           | (False, s2) \<Rightarrow> run_queries search num_results nq (Suc i) qs s2))"

definition broader_tick :: "nat \<Rightarrow> nat \<Rightarrow> engine \<Rightarrow> engine" where
  "broader_tick len_results j s =
     emit Sleep
       (emit (Progress (min (9 / 10 + (of_nat j + 1) / of_nat len_results * (1 / 10)) (99 / 100))) s)"

text \<open>The loop over the results of the broader query (lines 159 to 173); it leaves
  through \<open>break\<close>.\<close>

fun scan_broader :: "int \<Rightarrow> nat \<Rightarrow> nat \<Rightarrow> string list \<Rightarrow> engine \<Rightarrow> engine" where
  "scan_broader num_results len_results j [] s = s"
| "scan_broader num_results len_results j (url # rest) s =
     (case first_match url of
        None \<Rightarrow> scan_broader num_results len_results (Suc j) rest (broader_tick len_results j s)
      | Some profile_url \<Rightarrow>
          if profile_url \<notin> set (profile_urls s) then
            (let s1 = append_profile profile_url s in
             if int (length (profile_urls s1)) \<ge> num_results
             then s1
             else scan_broader num_results len_results (Suc j) rest (broader_tick len_results j s1))
          else scan_broader num_results len_results (Suc j) rest (broader_tick len_results j s))"

definition dquote :: string where
  "dquote = [CHR 0x22]"

definition queries :: "string \<Rightarrow> string \<Rightarrow> string list" where
  "queries keyword description =
     [''site:linkedin.com/in '' @ dquote @ keyword @ dquote @ '' '' @ dquote @ description @ dquote,
      ''inurl:linkedin.com/in '' @ dquote @ keyword @ dquote @ '' '' @ dquote @ description @ dquote,
      ''site:linkedin.com/in intitle:'' @ dquote @ keyword @ dquote @ '' '' @ dquote @ description
        @ dquote]"

definition broader_query :: "string \<Rightarrow> string" where
  "broader_query keyword = ''site:linkedin.com/in '' @ dquote @ keyword @ dquote"

definition broader_search :: "search_client \<Rightarrow> string \<Rightarrow> int \<Rightarrow> engine \<Rightarrow> engine" where
  "broader_search search keyword num_results s =
     (if int (length (profile_urls s)) < num_results then
        (let s1 = emit (Search (broader_query keyword)) s in
         case search (broader_query keyword) of
           Inl e \<Rightarrow> s1
         | Inr search_results \<Rightarrow>
             scan_broader num_results (length search_results) 0 search_results s1)
      else s)"

text \<open>\<open>search_linkedin_profiles\<close>: the list it returns is \<^const>\<open>profile_urls\<close> of the final
  state, what it did on the way is \<^const>\<open>events\<close>.\<close>

definition search_linkedin_profiles ::
  "search_client \<Rightarrow> string \<Rightarrow> string \<Rightarrow> int \<Rightarrow> engine" where
  "search_linkedin_profiles search keyword description num_results =
     (let qs = queries keyword description;
          s0 = \<lparr>profile_urls = [], events = [Progress 0]\<rparr>
      in case run_queries search num_results (length qs) 0 qs s0 of
           (True, s) \<Rightarrow> s
         | (False, s) \<Rightarrow> emit (Progress 1) (broader_search search keyword num_results s))"

section \<open>Outreach manager\<close>

subsection \<open>Library functions on text\<close>

text \<open>\<open>str.strip()\<close>\<close>

definition py_strip :: "string \<Rightarrow> string" where
  "py_strip s = rev (dropWhile py_isspace (rev (dropWhile py_isspace s)))"

text \<open>\<open>str.lower\<close> on one character: the lower case of a code point below 256 is below
  256.\<close>

definition py_lower_char :: "char \<Rightarrow> char" where
  "py_lower_char c =
     (let n = (of_char c :: nat) in
      if (65 \<le> n \<and> n \<le> 90) \<or> (192 \<le> n \<and> n \<le> 222 \<and> n \<noteq> 215) then char_of (n + 32) else c)"

text \<open>The title case of one character, which \<open>str.capitalize\<close> (CPython 3.8 and later)
  gives to the first character of a text: the upper case letter, but \<open>Ss\<close> for U+00DF,
  U+039C for U+00B5 and U+0178 for U+00FF.\<close>

definition py_title_char :: "char \<Rightarrow> pytext" where
  "py_title_char c =
     (let n = (of_char c :: nat) in
      if (97 \<le> n \<and> n \<le> 122) \<or> (224 \<le> n \<and> n \<le> 254 \<and> n \<noteq> 247) then [n - 32]
      else if n = 181 then [924]
      else if n = 223 then [83, 115]
      else if n = 255 then [376]
      else [n])"

text \<open>\<open>str.capitalize()\<close>: the first character in title case, all the others in lower
  case.\<close>

definition capitalize :: "string \<Rightarrow> pytext" where
  "capitalize s =
     (case s of [] \<Rightarrow> [] | c # cs \<Rightarrow> py_title_char c @ codes (map py_lower_char cs))"

text \<open>\<open>s.replace(old, new)\<close>: the occurrences of \<open>old\<close> are found from left to right and
  do not overlap. An empty \<open>old\<close> matches in front of every character and at the end.\<close>

function py_replace :: "'a list \<Rightarrow> 'a list \<Rightarrow> 'a list \<Rightarrow> 'a list" where
  "py_replace s old new =
     (if old = [] then new @ concat (map (\<lambda>c. c # new) s)
      else if s = [] then []
      else if prefix old s then new @ py_replace (drop (length old) s) old new
      else hd s # py_replace (tl s) old new)"
  by pat_completeness auto
termination
  by (relation "measure (\<lambda>(s, old, new). length s)") (auto simp: Suc_le_eq)

subsection \<open>Reading the user name off a URL\<close>

text \<open>
  \<open>urlparse(url).path\<close> of \<open>urllib.parse\<close> (CPython 3.11), which is not part of the
  repository: \<open>urlsplit\<close> drops leading C0 controls and spaces and every TAB, CR and LF,
  splits a scheme off, then a network location after \<open>//\<close>, then the fragment and the
  query; \<open>urlparse\<close> then splits the parameters off the last path segment. A text in
  brackets inside the network location is validated as an IP literal by the
  \<open>ipaddress\<close> module; that test is the parameter \<open>host_ok\<close>. \<open>None\<close> stands for the
  \<open>ValueError\<close> that \<open>urlsplit\<close> raises. (Its last test, on the NFKC form of the network
  location, never fails on code points below 256.)
\<close>

definition ascii_alpha :: "char \<Rightarrow> bool" where
  "ascii_alpha c = (let n = (of_char c :: nat) in (65 \<le> n \<and> n \<le> 90) \<or> (97 \<le> n \<and> n \<le> 122))"

definition scheme_char :: "char \<Rightarrow> bool" where
  "scheme_char c =
     (let n = (of_char c :: nat) in
      (65 \<le> n \<and> n \<le> 90) \<or> (97 \<le> n \<and> n \<le> 122) \<or> (48 \<le> n \<and> n \<le> 57)
      \<or> c = CHR ''+'' \<or> c = CHR ''-'' \<or> c = CHR ''.'')"

definition uses_params :: "string list" where
  "uses_params = ['''', ''ftp'', ''hdl'', ''prospero'', ''http'', ''imap'', ''https'', ''shttp'',
     ''rtsp'', ''rtsps'', ''rtspu'', ''sip'', ''sips'', ''mms'', ''sftp'', ''tel'']"

definition split_scheme :: "string \<Rightarrow> string \<times> string" where
  "split_scheme url =
     (let i = length (takeWhile (\<lambda>c. c \<noteq> CHR '':'') url) in
      if CHR '':'' \<in> set url \<and> i > 0 \<and> ascii_alpha (hd url) \<and> list_all scheme_char (take i url)
      then (map py_lower_char (take i url), drop (Suc i) url)
      else ('''', url))"

definition netloc_delim :: "char \<Rightarrow> bool" where
  "netloc_delim c = (c = CHR ''/'' \<or> c = CHR ''?'' \<or> c = CHR ''#'')"

definition bracketed_host :: "string \<Rightarrow> string" where
  "bracketed_host netloc =
     takeWhile (\<lambda>c. c \<noteq> CHR '']'') (drop 1 (dropWhile (\<lambda>c. c \<noteq> CHR ''['') netloc))"

definition split_netloc :: "(string \<Rightarrow> bool) \<Rightarrow> string \<Rightarrow> string option" where
  "split_netloc host_ok url =
     (if take 2 url = ''//'' then
        (let netloc = takeWhile (\<lambda>c. \<not> netloc_delim c) (drop 2 url);
             rest = dropWhile (\<lambda>c. \<not> netloc_delim c) (drop 2 url) in
         if (CHR ''['' \<in> set netloc) \<noteq> (CHR '']'' \<in> set netloc) then None
         else if CHR ''['' \<in> set netloc \<and> \<not> host_ok (bracketed_host netloc) then None
         else Some rest)
      else Some url)"

definition splitparams :: "string \<Rightarrow> string" where
  "splitparams url =
     (let k = length (dropWhile (\<lambda>c. c \<noteq> CHR ''/'') (rev url)) in
      take k url @ takeWhile (\<lambda>c. c \<noteq> CHR '';'') (drop k url))"

definition urlparse_path :: "(string \<Rightarrow> bool) \<Rightarrow> string \<Rightarrow> string option" where
  "urlparse_path host_ok url0 =
     (let url1 = dropWhile (\<lambda>c. (of_char c :: nat) \<le> 32) url0;
          url2 = filter (\<lambda>c. c \<noteq> CHR 0x09 \<and> c \<noteq> CHR 0x0D \<and> c \<noteq> CHR 0x0A) url1;
          (scheme, url3) = split_scheme url2
      in case split_netloc host_ok url3 of
           None \<Rightarrow> None
         | Some url4 \<Rightarrow>
             (let url5 = takeWhile (\<lambda>c. c \<noteq> CHR ''#'') url4;
                  url6 = takeWhile (\<lambda>c. c \<noteq> CHR ''?'') url5
              in Some (if scheme \<in> set uses_params \<and> CHR '';'' \<in> set url6
                       then splitparams url6 else url6)))"

text \<open>\<^verbatim>\<open>re.search(r'/in/([^/]+)', path)\<close> and \<open>match.group(1)\<close>: the leftmost \<open>/in/\<close> that is
  followed by a character other than a slash, and the longest run of such characters.\<close>

fun search_in :: "string \<Rightarrow> string option" where
  "search_in [] = None"
| "search_in (c # cs) =
     (if prefix ''/in/'' (c # cs) \<and> takeWhile (\<lambda>x. x \<noteq> CHR ''/'') (drop 4 (c # cs)) \<noteq> []
      then Some (takeWhile (\<lambda>x. x \<noteq> CHR ''/'') (drop 4 (c # cs)))
      else search_in cs)"

text \<open>\<open>extract_linkedin_username\<close> on a text (the test \<open>isinstance(url, str)\<close> is the type
  of the argument here).\<close>

definition extract_linkedin_username :: "(string \<Rightarrow> bool) \<Rightarrow> string \<Rightarrow> string option" where
  "extract_linkedin_username host_ok url =
     (if url = [] then None
      else case urlparse_path host_ok (py_strip url) of
             None \<Rightarrow> None
           | Some path \<Rightarrow> search_in path)"

subsection \<open>Python values and the directory API\<close>

text \<open>The values that \<open>response.json()\<close> returns, and \<open>None\<close>. A dictionary is the list of
  its items, its keys distinct.\<close>

datatype pyval =
    PyNone
  | PyBool bool
  | PyNum rat
  | PyStr string
  | PyList "pyval list"
  | PyDict "(string \<times> pyval) list"

text \<open>The response that an exception of \<open>requests\<close> carries.\<close>

record response =
  status_code :: int
  response_text :: string

text \<open>
  The exceptions of the model. \<open>RequestException msg r\<close> is any exception of the class
  \<open>requests.exceptions.RequestException\<close>: \<open>msg\<close> is \<open>str(e)\<close>, and \<open>r\<close> is \<open>e.response\<close>
  when the test \<open>hasattr(e, 'response') and e.response\<close> succeeds, \<open>None\<close> when it fails.
\<close>

datatype py_exception =
    RequestException string "response option"
  | AttributeError
  | TypeError
  | KeyError
  | IndexError
  | OtherException string

text \<open>
  What one HTTP exchange gives: the call, \<open>raise_for_status()\<close> and, where the source
  reads it, \<open>response.json()\<close> either raise, or pass and give the decoded body.
\<close>

datatype http_outcome = Raises py_exception | Returns pyval

text \<open>
  The directory API as the source calls it: one field for each call site, each a function
  of what the call sends (the URL; for the two POST requests also the identifier and the
  text). The API key and the account identifier go with every call.
\<close>

record directory =
  provider_id_get :: "string \<Rightarrow> http_outcome"
  job_title_get :: "string \<Rightarrow> http_outcome"
  chats_post :: "string \<Rightarrow> pyval \<Rightarrow> pytext \<Rightarrow> http_outcome"
  invite_post :: "string \<Rightarrow> pyval \<Rightarrow> pytext \<Rightarrow> http_outcome"

text \<open>Truth value of a Python value, as \<open>if x:\<close> and \<open>not x\<close> test it.\<close>

fun truthy :: "pyval \<Rightarrow> bool" where
  "truthy PyNone = False"
| "truthy (PyBool b) = b"
| "truthy (PyNum x) = (x \<noteq> 0)"
| "truthy (PyStr s) = (s \<noteq> [])"
| "truthy (PyList xs) = (xs \<noteq> [])"
| "truthy (PyDict kvs) = (kvs \<noteq> [])"

text \<open>\<open>data.get(key, default)\<close>: only a dictionary has the method.\<close>

fun py_get :: "pyval \<Rightarrow> string \<Rightarrow> pyval \<Rightarrow> py_exception + pyval" where
  "py_get (PyDict kvs) key dflt = Inr (case map_of kvs key of Some v \<Rightarrow> v | None \<Rightarrow> dflt)"
| "py_get _ key dflt = Inl AttributeError"

text \<open>\<open>len(x)\<close>\<close>

fun py_len :: "pyval \<Rightarrow> py_exception + nat" where
  "py_len (PyStr s) = Inr (length s)"
| "py_len (PyList xs) = Inr (length xs)"
| "py_len (PyDict kvs) = Inr (length kvs)"
| "py_len _ = Inl TypeError"

text \<open>\<open>x[0]\<close>: the keys of a decoded dictionary are texts, so the key 0 is missing.\<close>

fun py_first :: "pyval \<Rightarrow> py_exception + pyval" where
  "py_first (PyList []) = Inl IndexError"
| "py_first (PyList (v # vs)) = Inr v"
| "py_first (PyStr []) = Inl IndexError"
| "py_first (PyStr (c # cs)) = Inr (PyStr [c])"
| "py_first (PyDict kvs) = Inl KeyError"
| "py_first _ = Inl TypeError"

text \<open>\<open>key in x\<close> for a text \<open>key\<close>: a key of a dictionary, an element of a list, a part of a
  text.\<close>

fun py_in :: "string \<Rightarrow> pyval \<Rightarrow> py_exception + bool" where
  "py_in key (PyDict kvs) = Inr (key \<in> fst ` set kvs)"
| "py_in key (PyList xs) = Inr (PyStr key \<in> set xs)"
| "py_in key (PyStr s) = Inr (sublist key s)"
| "py_in key _ = Inl TypeError"

text \<open>\<open>x[key]\<close> for a text \<open>key\<close>\<close>

fun py_item :: "pyval \<Rightarrow> string \<Rightarrow> py_exception + pyval" where
  "py_item (PyDict kvs) key = (case map_of kvs key of Some v \<Rightarrow> Inr v | None \<Rightarrow> Inl KeyError)"
| "py_item _ key = Inl TypeError"

text \<open>Sequencing of steps that may raise.\<close>

definition and_then :: "'e + 'a \<Rightarrow> ('a \<Rightarrow> 'e + 'b) \<Rightarrow> 'e + 'b" where
  "and_then m f = (case m of Inl e \<Rightarrow> Inl e | Inr v \<Rightarrow> f v)"

definition users_url :: "string \<Rightarrow> string \<Rightarrow> string" where
  "users_url dsn username = ''https://'' @ dsn @ ''/api/v1/users/'' @ username"

subsection \<open>The four API functions\<close>

text \<open>The condition \<open>experience and len(experience) > 0 and "title" in experience[0]\<close>
  of \<open>extract_job_title\<close>, from left to right.\<close>

definition has_experience_title :: "pyval \<Rightarrow> py_exception + bool" where
  "has_experience_title experience =
     (if \<not> truthy experience then Inr False
      else and_then (py_len experience) (\<lambda>n.
             if \<not> n > 0 then Inr False
             else and_then (py_first experience) (\<lambda>first. py_in ''title'' first)))"

text \<open>The body of the \<open>try\<close> block of \<open>extract_job_title\<close> after the response has come.\<close>

definition job_title_of :: "pyval \<Rightarrow> py_exception + pyval" where
  "job_title_of data =
     and_then (py_get data ''headline'' (PyStr '''')) (\<lambda>headline.
     and_then (py_get data ''experience'' (PyList [])) (\<lambda>experience.
     and_then (has_experience_title experience) (\<lambda>has_title.
       if has_title then and_then (py_first experience) (\<lambda>first. py_item first ''title'')
       else if truthy headline then Inr headline
       else Inr (PyStr ''Professional''))))"

text \<open>\<open>extract_job_title\<close>: the bare \<open>except:\<close> turns every exception into the generic
  label.\<close>

definition extract_job_title ::
  "directory \<Rightarrow> string \<Rightarrow> string \<Rightarrow> string \<Rightarrow> string \<Rightarrow> pyval" where
  "extract_job_title api username api_key dsn account_id =
     (case (case job_title_get api (users_url dsn username) of
              Raises e \<Rightarrow> Inl e
            | Returns data \<Rightarrow> job_title_of data) of
        Inl e \<Rightarrow> PyStr ''Professional''
      | Inr title \<Rightarrow> title)"

text \<open>\<open>get_user_provider_id\<close> returns the pair \<open>(provider_id, error)\<close>; only a
  \<open>RequestException\<close> is caught.\<close>

definition get_user_provider_id ::
  "directory \<Rightarrow> string \<Rightarrow> string \<Rightarrow> string \<Rightarrow> string \<Rightarrow> py_exception + (pyval \<times> string option)"
  where
  "get_user_provider_id api username api_key dsn account_id =
     (case provider_id_get api (users_url dsn username) of
        Raises (RequestException error_msg r) \<Rightarrow>
          Inr (PyNone, Some (case r of None \<Rightarrow> error_msg
                                      | Some resp \<Rightarrow> error_msg @ '': '' @ response_text resp))
      | Raises e \<Rightarrow> Inl e
      | Returns data \<Rightarrow>
          and_then (py_get data ''provider_id'' PyNone) (\<lambda>provider_id.
            if \<not> truthy provider_id
            then Inr (PyNone, Some ''Could not find provider_id in the response'')
            else Inr (provider_id, None)))"

text \<open>\<open>send_message\<close> returns the pair \<open>(success, text)\<close>.\<close>

definition send_message ::
  "directory \<Rightarrow> pyval \<Rightarrow> pytext \<Rightarrow> string \<Rightarrow> string \<Rightarrow> string \<Rightarrow> py_exception + (bool \<times> string)"
  where
  "send_message api provider_id message_text api_key dsn account_id =
     (case chats_post api (''https://'' @ dsn @ ''/api/v1/chats'') provider_id message_text of
        Returns body \<Rightarrow> Inr (True, ''Message sent successfully'')
      | Raises (RequestException msg r) \<Rightarrow>
          (case r of
             Some resp \<Rightarrow>
               if status_code resp = 400 \<or> status_code resp = 403
               then Inr (False, ''Failed to send message: '' @ response_text resp)
               else Inr (False, ''Error sending message: '' @ msg)
           | None \<Rightarrow> Inr (False, ''Error sending message: '' @ msg))
      | Raises e \<Rightarrow> Inl e)"

text \<open>\<open>send_connection_request\<close> returns the pair \<open>(success, text)\<close>.\<close>

definition send_connection_request ::
  "directory \<Rightarrow> pyval \<Rightarrow> pytext \<Rightarrow> string \<Rightarrow> string \<Rightarrow> string \<Rightarrow> py_exception + (bool \<times> string)"
  where
  "send_connection_request api provider_id message api_key dsn account_id =
     (case invite_post api (''https://'' @ dsn @ ''/api/v1/users/invite'') provider_id message of
        Returns body \<Rightarrow> Inr (True, ''Connection request sent successfully'')
      | Raises (RequestException msg r) \<Rightarrow>
          Inr (False, ''Error sending connection request: ''
                 @ (case r of None \<Rightarrow> msg | Some resp \<Rightarrow> msg @ '': '' @ response_text resp))
      | Raises e \<Rightarrow> Inl e)"

subsection \<open>The pipeline for one profile\<close>

text \<open>The dictionary \<open>result\<close>; \<^const>\<open>PyNone\<close> and \<^const>\<open>None\<close> stand for Python's
  \<open>None\<close>.\<close>

record outreach_result =
  url :: string
  username :: "string option"
  job_title :: pyval
  provider_id :: pyval
  action :: "string option"
  status :: "string option"
  error :: "string option"

text \<open>\<open>template.replace("{name}", username.capitalize()).replace("{job_title}", job_title)\<close>:
  the second \<open>replace\<close> raises \<open>TypeError\<close> when the job title is not a text.\<close>

definition personalized :: "pytext \<Rightarrow> string \<Rightarrow> pyval \<Rightarrow> py_exception + pytext" where
  "personalized template uname title =
     (case title of
        PyStr t \<Rightarrow>
          Inr (py_replace (py_replace template (codes ''{name}'') (capitalize uname))
                 (codes ''{job_title}'') (codes t))
      | _ \<Rightarrow> Inl TypeError)"

text \<open>Step 3 of \<open>process_linkedin_profile\<close> (lines 368 to 381): the job title that goes
  into the result, the personalized message and the personalized connection note.\<close>

definition personalize_templates ::
  "directory \<Rightarrow> string \<Rightarrow> pytext \<Rightarrow> pytext \<Rightarrow> string \<Rightarrow> string \<Rightarrow> string \<Rightarrow> bool
   \<Rightarrow> py_exception + (pyval \<times> pytext \<times> pytext)" where
  "personalize_templates api uname message_template connection_template api_key dsn account_id
     personalize =
     (if personalize then
        (let title = extract_job_title api uname api_key dsn account_id in
         and_then (personalized message_template uname title) (\<lambda>personalized_message.
         and_then (personalized connection_template uname title) (\<lambda>personalized_connection.
           Inr (title, personalized_message, personalized_connection))))
      else Inr (PyNone, message_template, connection_template))"

text \<open>Steps 4 and 5 (lines 383 to 403).\<close>

definition deliver ::
  "directory \<Rightarrow> outreach_result \<Rightarrow> pyval \<Rightarrow> pytext \<Rightarrow> pytext \<Rightarrow> string \<Rightarrow> string \<Rightarrow> string
   \<Rightarrow> py_exception + outreach_result" where
  "deliver api result pid personalized_message personalized_connection api_key dsn account_id =
     and_then (send_message api pid personalized_message api_key dsn account_id)
       (\<lambda>(message_success, message_result).
          if message_success
          then Inr (result\<lparr>action := Some ''Message'', status := Some ''Success''\<rparr>)
          else
            and_then (send_connection_request api pid personalized_connection api_key dsn account_id)
              (\<lambda>(connect_success, connect_result).
                 if connect_success
                 then Inr (result\<lparr>action := Some ''Connection Request'', status := Some ''Success''\<rparr>)
                 else Inr (result\<lparr>action := Some ''Connection Request'', status := Some ''Failed'',
                                    error := Some connect_result\<rparr>)))"

text \<open>\<open>process_linkedin_profile\<close>; \<open>Inl\<close> is an exception that leaves the function.\<close>

definition process_linkedin_profile ::
  "(string \<Rightarrow> bool) \<Rightarrow> directory \<Rightarrow> string \<Rightarrow> pytext \<Rightarrow> pytext \<Rightarrow> string \<Rightarrow> string \<Rightarrow> string \<Rightarrow> bool
   \<Rightarrow> py_exception + outreach_result" where
  "process_linkedin_profile host_ok api linkedin_url message_template connection_template
     api_key dsn account_id personalize =
     (let result = \<lparr>url = linkedin_url, username = None, job_title = PyNone, provider_id = PyNone,
                     action = None, status = None, error = None\<rparr>;
          no_username = Inr (result\<lparr>error := Some (''Could not extract username from URL: ''
                                                    @ linkedin_url),
                                   status := Some ''Failed''\<rparr>)
      in case extract_linkedin_username host_ok linkedin_url of
           None \<Rightarrow> no_username
         | Some uname \<Rightarrow>
             if uname = [] then no_username
             else
               (let result = result\<lparr>username := Some uname\<rparr> in
                and_then (get_user_provider_id api uname api_key dsn account_id) (\<lambda>(pid, err).
                  if err \<noteq> None \<and> err \<noteq> Some []
                  then Inr (result\<lparr>error := err, status := Some ''Failed''\<rparr>)
                  else
                    (let result = result\<lparr>provider_id := pid\<rparr> in
                     and_then (personalize_templates api uname message_template connection_template
                                 api_key dsn account_id personalize)
                       (\<lambda>(title, personalized_message, personalized_connection).
                          deliver api (result\<lparr>job_title := title\<rparr>) pid personalized_message
                            personalized_connection api_key dsn account_id)))))"

text \<open>The loop of \<open>main\<close> over the URLs (lines 603 to 611): no handler stands between
  \<open>process_linkedin_profile\<close> and the loop, so an exception ends it.\<close>

fun process_all ::
  "(string \<Rightarrow> bool) \<Rightarrow> directory \<Rightarrow> pytext \<Rightarrow> pytext \<Rightarrow> string \<Rightarrow> string \<Rightarrow> string \<Rightarrow> bool
   \<Rightarrow> string list \<Rightarrow> outreach_result list \<Rightarrow> py_exception + outreach_result list" where
  "process_all host_ok api message_text connection_text api_key dsn account_id personalize
     [] results = Inr results"
| "process_all host_ok api message_text connection_text api_key dsn account_id personalize
     (linkedin_url # linkedin_urls) results =
     (case process_linkedin_profile host_ok api linkedin_url message_text connection_text
             api_key dsn account_id personalize of
        Inl e \<Rightarrow> Inl e
      | Inr result \<Rightarrow>
          process_all host_ok api message_text connection_text api_key dsn account_id personalize
            linkedin_urls (results @ [result]))"

declare py_replace.simps [simp del]

section \<open>Notions used in the statements\<close>

subsection \<open>Reading the events of a search\<close>

fun is_found :: "event \<Rightarrow> bool" where
  "is_found (Found p) = True"
| "is_found _ = False"

definition found_count :: "event list \<Rightarrow> nat" where
  "found_count es = length (filter is_found es)"

text \<open>The fractions handed to the progress bar, in the order of the calls.\<close>

fun progress_values :: "event list \<Rightarrow> rat list" where
  "progress_values [] = []"
| "progress_values (Progress x # es) = x # progress_values es"
| "progress_values (e # es) = progress_values es"

text \<open>The queries sent to the search provider, in the order of the calls.\<close>

fun searches :: "event list \<Rightarrow> string list" where
  "searches [] = []"
| "searches (Search q # es) = q # searches es"
| "searches (e # es) = searches es"

text \<open>The search provider that answers with no result where \<open>search\<close> raises.\<close>

definition skipping :: "search_client \<Rightarrow> search_client" where
  "skipping search query = (case search query of Inl e \<Rightarrow> Inr [] | Inr urls \<Rightarrow> Inr urls)"

text \<open>Invariants of the search loops: while a loop runs, every profile in the list has
  its \<open>Found\<close> event and the list is shorter than \<open>num_results\<close>; once the run has settled,
  the list is no longer than \<open>num_results\<close> and nothing but the final progress report
  follows the event that filled it.\<close>

definition running :: "int \<Rightarrow> engine \<Rightarrow> bool" where
  "running n s \<longleftrightarrow>
     found_count (events s) = length (profile_urls s) \<and> int (length (profile_urls s)) < n"

definition quiet :: "int \<Rightarrow> event list \<Rightarrow> bool" where
  "quiet n es \<longleftrightarrow>
     (\<forall>pre post. es = pre @ post \<and> n \<le> int (found_count pre) \<longrightarrow> (\<forall>e\<in>set post. e = Progress 1))"

definition settled :: "int \<Rightarrow> engine \<Rightarrow> bool" where
  "settled n s \<longleftrightarrow> int (length (profile_urls s)) \<le> n \<and> quiet n (events s)"

definition unit_progress :: "event list \<Rightarrow> bool" where
  "unit_progress es \<longleftrightarrow> (\<forall>x\<in>set (progress_values es). 0 \<le> x \<and> x \<le> 1)"

subsection \<open>Personalization as the specification words it\<close>

text \<open>
  The specification of the personalization engine, word for word: every literal
  occurrence of \<open>{name}\<close> and of \<open>{job_title}\<close> in the template is replaced, in one pass
  from left to right, and every other character passes through unchanged.
\<close>

function substitute :: "pytext \<Rightarrow> pytext \<Rightarrow> pytext \<Rightarrow> pytext" where
  "substitute template name title =
     (if template = [] then []
      else if prefix (codes ''{name}'') template
        then name @ substitute (drop 6 template) name title
      else if prefix (codes ''{job_title}'') template
        then title @ substitute (drop 11 template) name title
      else hd template # substitute (tl template) name title)"
  by pat_completeness auto
termination
  by (relation "measure (\<lambda>(t, n, j). length t)") auto

declare substitute.simps [simp del]

text \<open>"First character upper-cased, rest unchanged". The upper case of one character is
  the one that \<open>str.upper\<close> gives: it differs from the title case in \<open>SS\<close> for U+00DF.\<close>

definition upper_first_char :: "char \<Rightarrow> pytext" where
  "upper_first_char c = (if of_char c = (223 :: nat) then [83, 83] else py_title_char c)"

definition first_upper :: "string \<Rightarrow> pytext" where
  "first_upper s = (case s of [] \<Rightarrow> [] | c # cs \<Rightarrow> upper_first_char c @ codes cs)"

definition personalize_spec :: "pytext \<Rightarrow> string \<Rightarrow> string \<Rightarrow> pytext" where
  "personalize_spec template uname title =
     substitute template (first_upper uname) (codes title)"

subsection \<open>Sample inputs\<close>

text \<open>No bracketed host is a valid IP literal (none of the samples has one).\<close>

definition no_ip_literal :: "string \<Rightarrow> bool" where
  "no_ip_literal host = False"

text \<open>A search provider given by a table; it raises on every query outside the table.\<close>

definition answering :: "(string \<times> string list) list \<Rightarrow> search_client" where
  "answering table query =
     (case map_of table query of
        Some urls \<Rightarrow> Inr urls
      | None \<Rightarrow> Inl (SearchError ''HTTP Error 429: Too Many Requests''))"

text \<open>A directory that gives the same outcome to every call of one call site.\<close>

definition directory_of ::
  "http_outcome \<Rightarrow> http_outcome \<Rightarrow> http_outcome \<Rightarrow> http_outcome \<Rightarrow> directory" where
  "directory_of lookup title chat invite =
     \<lparr>provider_id_get = (\<lambda>u. lookup), job_title_get = (\<lambda>u. title),
      chats_post = (\<lambda>u p t. chat), invite_post = (\<lambda>u p t. invite)\<rparr>"

definition sample_profile :: pyval where
  "sample_profile = PyDict [(''provider_id'', PyStr ''p_88''), (''headline'', PyStr ''Engineer'')]"

definition accepted :: http_outcome where
  "accepted = Returns (PyDict [])"

definition forbidden :: http_outcome where
  "forbidden = Raises (RequestException ''403 Client Error: Forbidden for url'' None)"

text \<open>A search provider that answers the first targeted query with five results, four of
  them pages of one profile, and raises on every other query.\<close>

definition john_pages :: search_client where
  "john_pages =
     answering [(hd (queries ''Data Scientist'' ''fintech London''),
                 [''https://www.linkedin.com/in/john'',
                  ''https://www.linkedin.com/in/john/'',
                  ''http://www.linkedin.com/in/john'',
                  ''https://www.linkedin.com/in/john?trk=public'',
                  ''https://www.linkedin.com/company/acme''])]"

text \<open>A profile URL, a URL that is no profile URL, and the two templates of the samples.\<close>

definition acme_url :: string where
  "acme_url = ''https://www.linkedin.com/company/acme''"

definition bob_url :: string where
  "bob_url = ''https://www.linkedin.com/in/bob''"

definition hello :: pytext where
  "hello = codes ''Hi {name}, you are a {job_title}!''"

definition invitation :: pytext where
  "invitation = codes ''Hi {name}, let us connect.''"

text \<open>Directories: one where the sender is connected to the profile, one where the
  message is refused and the invitation passes, one where both are refused.\<close>

definition connected :: directory where
  "connected = directory_of (Returns sample_profile) (Returns sample_profile) accepted accepted"

definition not_connected :: directory where
  "not_connected = directory_of (Returns sample_profile) (Returns sample_profile) forbidden accepted"

definition refusing :: directory where
  "refusing = directory_of (Returns sample_profile) (Returns sample_profile) forbidden forbidden"

text \<open>A directory whose answer has no \<open>provider_id\<close>, one whose answer lists a position
  with the title \<open>null\<close>, one that answers the lookup with a list, one whose answer has
  a position without title and no headline, and one where the lookup of the job title
  fails.\<close>

definition without_provider_id :: directory where
  "without_provider_id =
     directory_of (Returns (PyDict [(''headline'', PyStr ''Engineer'')]))
       (Returns sample_profile) accepted accepted"

definition untitled_position :: directory where
  "untitled_position =
     directory_of (Returns sample_profile)
       (Returns (PyDict [(''provider_id'', PyStr ''p_88''),
                         (''experience'', PyList [PyDict [(''company'', PyStr ''Acme''),
                                                          (''title'', PyNone)]])]))
       accepted accepted"

definition listing :: directory where
  "listing = directory_of (Returns (PyList [])) (Returns (PyList [])) accepted accepted"



text \<open>A directory whose lookup raises a \<open>RequestException\<close> that has no message, so that
  \<open>str(e)\<close> is the empty text.\<close>

definition silent_failure :: directory where
  "silent_failure =
     directory_of (Raises (RequestException '''' None)) (Returns sample_profile) accepted accepted"

subsection \<open>A response without a job title\<close>



section \<open>Facts about the search\<close>

subsection \<open>The state and its events\<close>

lemma profile_urls_emit [simp]: "profile_urls (emit e s) = profile_urls s"
  by (simp add: emit_def)

lemma events_emit [simp]: "events (emit e s) = events s @ [e]"
  by (simp add: emit_def)

lemma profile_urls_append_profile [simp]:
  "profile_urls (append_profile p s) = profile_urls s @ [p]"
  by (simp add: append_profile_def)

lemma events_append_profile [simp]: "events (append_profile p s) = events s @ [Found p]"
  by (simp add: append_profile_def)

lemma profile_urls_targeted_tick [simp]:
  "profile_urls (targeted_tick nq i t j s) = profile_urls s"
  by (simp add: targeted_tick_def Let_def)

lemma profile_urls_broader_tick [simp]: "profile_urls (broader_tick t j s) = profile_urls s"
  by (simp add: broader_tick_def)

lemma found_count_append [simp]: "found_count (xs @ ys) = found_count xs + found_count ys"
  by (simp add: found_count_def)

lemma found_count_simps [simp]:
  "found_count [] = 0"
  "found_count (Found p # es) = Suc (found_count es)"
  "found_count (Progress x # es) = found_count es"
  "found_count (Search q # es) = found_count es"
  "found_count (Sleep # es) = found_count es"
  by (simp_all add: found_count_def)

lemma quiet_below: "int (found_count es) < n \<Longrightarrow> quiet n es"
  unfolding quiet_def
proof (intro allI impI)
  fix pre post assume a: "int (found_count es) < n" "es = pre @ post \<and> n \<le> int (found_count pre)"
  then have "found_count pre \<le> found_count es" by simp
  with a show "\<forall>e\<in>set post. e = Progress 1" by linarith
qed

lemma quiet_snoc_progress: "quiet n es \<Longrightarrow> quiet n (es @ [Progress 1])"
  unfolding quiet_def
proof (intro allI impI)
  fix pre post
  assume q: "\<forall>pre post. es = pre @ post \<and> n \<le> int (found_count pre) \<longrightarrow> (\<forall>e\<in>set post. e = Progress 1)"
    and a: "es @ [Progress 1] = pre @ post \<and> n \<le> int (found_count pre)"
  show "\<forall>e\<in>set post. e = Progress 1"
  proof (cases post rule: rev_cases)
    case Nil
    then show ?thesis by simp
  next
    case (snoc post' x)
    with a have "es = pre @ post'" "x = Progress 1" by auto
    with q a snoc show ?thesis by auto
  qed
qed

lemma quiet_snoc_found: "int (found_count es) < n \<Longrightarrow> quiet n (es @ [Found p])"
  unfolding quiet_def
proof (intro allI impI)
  fix pre post
  assume b: "int (found_count es) < n" and a: "es @ [Found p] = pre @ post \<and> n \<le> int (found_count pre)"
  show "\<forall>e\<in>set post. e = Progress 1"
  proof (cases post rule: rev_cases)
    case Nil
    then show ?thesis by simp
  next
    case (snoc post' x)
    with a have "es = pre @ post'" by auto
    then have "found_count pre \<le> found_count es" by simp
    with a b show ?thesis by linarith
  qed
qed

lemma running_settled: "running n s \<Longrightarrow> settled n s"
  by (simp add: running_def settled_def quiet_below)

lemma running_emit: "running n s \<Longrightarrow> \<not> is_found e \<Longrightarrow> running n (emit e s)"
  by (cases e) (simp_all add: running_def)

lemma running_targeted_tick: "running n s \<Longrightarrow> running n (targeted_tick nq i t j s)"
  by (simp add: targeted_tick_def Let_def running_emit)

lemma running_broader_tick: "running n s \<Longrightarrow> running n (broader_tick t j s)"
  by (simp add: broader_tick_def running_emit)

lemma running_append_profile:
  "running n s \<Longrightarrow> \<not> n \<le> int (length (profile_urls (append_profile p s))) \<Longrightarrow>
   running n (append_profile p s)"
  by (simp add: running_def)

lemma settled_append_profile: "running n s \<Longrightarrow> settled n (append_profile p s)"
  by (simp add: running_def settled_def quiet_snoc_found)

lemma settled_progress: "settled n s \<Longrightarrow> settled n (emit (Progress 1) s)"
  by (simp add: settled_def quiet_snoc_progress)

lemma scan_targeted_inv:
  "running n s \<Longrightarrow>
   (case scan_targeted n nq i t j urls s of (True, s') \<Rightarrow> settled n s' | (False, s') \<Rightarrow> running n s')"
proof (induction urls arbitrary: j s)
  case Nil
  then show ?case by simp
next
  case (Cons u urls)
  show ?case
  proof (cases "first_match u")
    case None
    then show ?thesis using Cons.IH [OF running_targeted_tick [OF Cons.prems]] by simp
  next
    case (Some p)
    show ?thesis
    proof (cases "p \<in> set (profile_urls s)")
      case True
      then show ?thesis using Some Cons.IH [OF running_targeted_tick [OF Cons.prems]] by simp
    next
      case False
      show ?thesis
      proof (cases "n \<le> int (length (profile_urls (append_profile p s)))")
        case True
        then show ?thesis
          using Some False settled_progress [OF settled_append_profile [OF Cons.prems]]
          by (simp add: Let_def)
      next
        case nc: False
        from running_append_profile [OF Cons.prems nc]
        have "running n (targeted_tick nq i t j (append_profile p s))"
          by (rule running_targeted_tick)
        from Cons.IH [OF this] show ?thesis using Some False nc by (simp add: Let_def)
      qed
    qed
  qed
qed

lemma run_queries_inv:
  "running n s \<Longrightarrow>
   (case run_queries search n nq i qs s of (True, s') \<Rightarrow> settled n s' | (False, s') \<Rightarrow> running n s')"
proof (induction qs arbitrary: i s)
  case Nil
  then show ?case by simp
next
  case (Cons q qs)
  let ?s1 = "emit (Search q) (emit (Progress (of_nat i / of_nat nq * (1 / 2))) s)"
  have r1: "running n ?s1" using Cons.prems by (simp add: running_emit)
  show ?case
  proof (cases "search q")
    case (Inl e)
    then show ?thesis using Cons.IH [OF r1] by (simp add: Let_def)
  next
    case (Inr rs)
    obtain b s2 where sc: "scan_targeted n nq i (length rs) 0 rs ?s1 = (b, s2)"
      by (cases "scan_targeted n nq i (length rs) 0 rs ?s1")
    show ?thesis
    proof (cases b)
      case True
      with scan_targeted_inv [OF r1, of nq i "length rs" 0 rs] sc Inr show ?thesis
        by (simp add: Let_def)
    next
      case False
      with scan_targeted_inv [OF r1, of nq i "length rs" 0 rs] sc have "running n s2" by simp
      from Cons.IH [OF this] show ?thesis using Inr sc False by (simp add: Let_def)
    qed
  qed
qed

lemma scan_broader_inv: "running n s \<Longrightarrow> settled n (scan_broader n t j urls s)"
proof (induction urls arbitrary: j s)
  case Nil
  then show ?case by (simp add: running_settled)
next
  case (Cons u urls)
  show ?case
  proof (cases "first_match u")
    case None
    then show ?thesis using Cons.IH [OF running_broader_tick [OF Cons.prems]] by simp
  next
    case (Some p)
    show ?thesis
    proof (cases "p \<in> set (profile_urls s)")
      case True
      then show ?thesis using Some Cons.IH [OF running_broader_tick [OF Cons.prems]] by simp
    next
      case False
      show ?thesis
      proof (cases "n \<le> int (length (profile_urls (append_profile p s)))")
        case True
        then show ?thesis
          using Some False settled_append_profile [OF Cons.prems] by (simp add: Let_def)
      next
        case nc: False
        from running_append_profile [OF Cons.prems nc]
        have "running n (broader_tick t j (append_profile p s))"
          by (rule running_broader_tick)
        from Cons.IH [OF this] show ?thesis using Some False nc by (simp add: Let_def)
      qed
    qed
  qed
qed

lemma broader_search_inv: "running n s \<Longrightarrow> settled n (broader_search search k n s)"
proof -
  assume r: "running n s"
  have r1: "running n (emit (Search (broader_query k)) s)" using r by (simp add: running_emit)
  show ?thesis
    using r r1 scan_broader_inv [OF r1] running_settled [OF r1] running_settled [OF r]
    by (simp add: broader_search_def Let_def split: sum.splits)
qed

lemma search_settled:
  assumes "0 < n"
  shows "settled n (search_linkedin_profiles search k d n)"
proof -
  let ?s0 = "\<lparr>profile_urls = [], events = [Progress 0]\<rparr>"
  have r0: "running n ?s0" using assms by (simp add: running_def)
  obtain b s where r: "run_queries search n (length (queries k d)) 0 (queries k d) ?s0 = (b, s)"
    by (cases "run_queries search n (length (queries k d)) 0 (queries k d) ?s0")
  show ?thesis
  proof (cases b)
    case True
    with run_queries_inv [OF r0, of search "length (queries k d)" 0 "queries k d"] r
    show ?thesis by (simp add: search_linkedin_profiles_def Let_def)
  next
    case False
    with run_queries_inv [OF r0, of search "length (queries k d)" 0 "queries k d"] r
    have "running n s" by simp
    from settled_progress [OF broader_search_inv [OF this]] r False
    show ?thesis by (simp add: search_linkedin_profiles_def Let_def)
  qed
qed


subsection \<open>The list holds no URL twice\<close>

lemma scan_targeted_distinct:
  "distinct (profile_urls s) \<Longrightarrow>
   distinct (profile_urls (snd (scan_targeted n nq i t j urls s)))"
  by (induction urls arbitrary: j s) (auto simp: Let_def split: option.splits)

lemma run_queries_distinct:
  "distinct (profile_urls s) \<Longrightarrow>
   distinct (profile_urls (snd (run_queries search n nq i qs s)))"
proof (induction qs arbitrary: i s)
  case Nil
  then show ?case by simp
next
  case (Cons q qs)
  let ?s1 = "emit (Search q) (emit (Progress (of_nat i / of_nat nq * (1 / 2))) s)"
  have d1: "distinct (profile_urls ?s1)" using Cons.prems by simp
  show ?case
  proof (cases "search q")
    case (Inl e)
    then show ?thesis using Cons.IH [OF d1] by (simp add: Let_def)
  next
    case (Inr rs)
    obtain b s2 where sc: "scan_targeted n nq i (length rs) 0 rs ?s1 = (b, s2)"
      by (cases "scan_targeted n nq i (length rs) 0 rs ?s1")
    have d2: "distinct (profile_urls s2)"
      using scan_targeted_distinct [OF d1, of n nq i "length rs" 0 rs] sc by simp
    show ?thesis using Inr sc d2 Cons.IH [OF d2] by (cases b) (simp_all add: Let_def)
  qed
qed

lemma scan_broader_distinct:
  "distinct (profile_urls s) \<Longrightarrow> distinct (profile_urls (scan_broader n t j urls s))"
  by (induction urls arbitrary: j s) (auto simp: Let_def split: option.splits)

lemma broader_search_distinct:
  "distinct (profile_urls s) \<Longrightarrow> distinct (profile_urls (broader_search search k n s))"
  by (auto simp: broader_search_def Let_def scan_broader_distinct split: sum.splits)

lemma search_distinct: "distinct (profile_urls (search_linkedin_profiles search k d n))"
proof -
  let ?s0 = "\<lparr>profile_urls = [], events = [Progress 0]\<rparr>"
  obtain b s where r: "run_queries search n (length (queries k d)) 0 (queries k d) ?s0 = (b, s)"
    by (cases "run_queries search n (length (queries k d)) 0 (queries k d) ?s0")
  have "distinct (profile_urls ?s0)" by simp
  from run_queries_distinct [OF this, of search n "length (queries k d)" 0 "queries k d"] r
  have d: "distinct (profile_urls s)" by simp
  show ?thesis
    using r d by (cases b) (simp_all add: search_linkedin_profiles_def Let_def broader_search_distinct)
qed


subsection \<open>A slash at the end of a result URL\<close>

lemma not_space_slash: "\<not> py_isspace CHR ''/''"
  by (simp add: py_isspace_def)

lemma trailer_slash:
  assumes "y = [] \<or> last y \<noteq> CHR ''/''"
  shows "trailer (y @ ''/'') = trailer y"
proof (cases y)
  case Nil
  then show ?thesis by (simp add: trailer_def at_boundary_def)
next
  case (Cons c r)
  show ?thesis
  proof (cases r)
    case Nil
    with Cons assms show ?thesis by (simp add: trailer_def at_boundary_def)
  next
    case (Cons d r')
    with \<open>y = c # r\<close> show ?thesis by (simp add: trailer_def at_boundary_def)
  qed
qed

lemma drop_keeps_last:
  "y = [] \<or> last y \<noteq> (a::'a) \<Longrightarrow> drop n y = [] \<or> last (drop n y) \<noteq> a"
  by (cases "n < length y") auto

lemma segment_back_slash:
  assumes "r = [] \<or> last r \<noteq> CHR ''/''"
  shows "n \<le> length r \<Longrightarrow> segment_back n (r @ ''/'') = segment_back n r"
proof (induction n)
  case 0
  then show ?case by simp
next
  case (Suc n)
  have "trailer (drop (Suc n) r @ ''/'') = trailer (drop (Suc n) r)"
    by (rule trailer_slash) (rule drop_keeps_last [OF assms])
  with Suc show ?case by simp
qed

lemma segment_slash:
  assumes "r = [] \<or> last r \<noteq> CHR ''/''"
  shows "segment (r @ ''/'') = segment r"
proof -
  have "takeWhile seg_char (r @ ''/'') = takeWhile seg_char r"
    by (simp add: takeWhile_tail seg_char_def)
  moreover have "length (takeWhile seg_char r) \<le> length r"
    by (rule length_takeWhile_le)
  ultimately show ?thesis by (simp add: segment_def segment_back_slash [OF assms])
qed

lemma segment_Nil: "segment [] = None"
  by (simp add: segment_def)

lemma linkedin_in_slash:
  assumes "z = [] \<or> last z \<noteq> CHR ''/''"
  shows "linkedin_in (z @ ''/'') = linkedin_in z"
proof (cases "prefix ''linkedin.com/in/'' z")
  case True
  then have len: "16 \<le> length z" using prefix_length_le by fastforce
  have "segment (drop 16 z @ ''/'') = segment (drop 16 z)"
    by (rule segment_slash) (rule drop_keeps_last [OF assms])
  with True len show ?thesis by (simp add: linkedin_in_def)
next
  case False
  show ?thesis
  proof (cases "prefix ''linkedin.com/in/'' (z @ ''/'')")
    case True
    with False have "''linkedin.com/in/'' = z @ ''/''" by simp
    then have "z @ ''/'' = ''linkedin.com/in/''" by simp
    then show ?thesis using False by (simp add: linkedin_in_def segment_Nil)
  next
    case nf: False
    with False show ?thesis by (simp add: linkedin_in_def)
  qed
qed

lemma lazy_any_slash:
  "y = [] \<or> last y \<noteq> CHR ''/'' \<Longrightarrow> lazy_any (y @ ''/'') = lazy_any y"
proof (induction y)
  case Nil
  then show ?case by (simp add: linkedin_in_def)
next
  case (Cons c cs)
  then have tl: "cs = [] \<or> last cs \<noteq> CHR ''/''" by (cases cs) auto
  have "linkedin_in ((c # cs) @ ''/'') = linkedin_in (c # cs)"
    by (rule linkedin_in_slash) (rule Cons.prems)
  then have "linkedin_in (c # cs @ ''/'') = linkedin_in (c # cs)" by simp
  with Cons.IH [OF tl] show ?case by (simp split: option.splits)
qed

lemma prefix_slash:
  assumes "x = [] \<or> last x \<noteq> CHR ''/''" and "p \<noteq> []" and "last p = CHR ''/''" and "last (butlast p) = CHR ''/''"
    and "butlast p \<noteq> []"
  shows "prefix p (x @ ''/'') = prefix p x"
proof -
  have "p \<noteq> x @ ''/''"
  proof
    assume "p = x @ ''/''"
    then have "butlast p = x" by simp
    with assms show False by auto
  qed
  then show ?thesis by simp
qed

lemma match_here_slash:
  assumes "x = [] \<or> last x \<noteq> CHR ''/''"
  shows "match_here (x @ ''/'') = match_here x"
proof -
  have p1: "prefix ''https://'' (x @ ''/'') = prefix ''https://'' x"
    by (rule prefix_slash [OF assms]) simp_all
  have p2: "prefix ''http://'' (x @ ''/'') = prefix ''http://'' x"
    by (rule prefix_slash [OF assms]) simp_all
  have l8: "prefix ''https://'' x \<Longrightarrow> lazy_any (drop 8 (x @ ''/'')) = lazy_any (drop 8 x)"
  proof -
    assume "prefix ''https://'' x"
    then have "8 \<le> length x" using prefix_length_le by fastforce
    then show ?thesis using lazy_any_slash [OF drop_keeps_last [OF assms], of 8] by simp
  qed
  have l7: "prefix ''http://'' x \<Longrightarrow> lazy_any (drop 7 (x @ ''/'')) = lazy_any (drop 7 x)"
  proof -
    assume "prefix ''http://'' x"
    then have "7 \<le> length x" using prefix_length_le by fastforce
    then show ?thesis using lazy_any_slash [OF drop_keeps_last [OF assms], of 7] by simp
  qed
  show ?thesis unfolding match_here_def p1 p2 using l7 l8 by simp
qed

lemma match_here_short: "match_here ''/'' = None"
  by (simp add: match_here_def)

lemma first_match_slash:
  "u = [] \<or> last u \<noteq> CHR ''/'' \<Longrightarrow> first_match (u @ ''/'') = first_match u"
proof (induction u)
  case Nil
  then show ?case by (simp add: match_here_def)
next
  case (Cons c cs)
  then have tl: "cs = [] \<or> last cs \<noteq> CHR ''/''" by (cases cs) auto
  have "match_here ((c # cs) @ ''/'') = match_here (c # cs)"
    by (rule match_here_slash) (rule Cons.prems)
  then have "match_here (c # cs @ ''/'') = match_here (c # cs)" by simp
  with Cons.IH [OF tl] show ?case by (simp split: option.splits)
qed


section \<open>Facts about the outreach manager\<close>

subsection \<open>Replacing one placeholder after the other\<close>

lemma codes_name: "codes ''{name}'' = [123, 110, 97, 109, 101, 125]"
  by (simp add: codes_def)

lemma codes_job_title:
  "codes ''{job_title}'' = [123, 106, 111, 98, 95, 116, 105, 116, 108, 101, 125]"
  by (simp add: codes_def)

lemma substitute_Nil: "substitute [] name title = []"
  by (simp add: substitute.simps)

lemma substitute_name:
  "prefix (codes ''{name}'') t \<Longrightarrow>
   substitute t name title = name @ substitute (drop 6 t) name title"
  by (subst substitute.simps) (auto simp: codes_name)

lemma substitute_title:
  "prefix (codes ''{job_title}'') t \<Longrightarrow>
   substitute t name title = title @ substitute (drop 11 t) name title"
proof -
  assume p: "prefix (codes ''{job_title}'') t"
  then have "\<not> prefix (codes ''{name}'') t" "t \<noteq> []"
    by (auto simp: prefix_def codes_name codes_job_title)
  with p show ?thesis by (subst substitute.simps) simp
qed

lemma substitute_other:
  "\<not> prefix (codes ''{name}'') (c # cs) \<Longrightarrow> \<not> prefix (codes ''{job_title}'') (c # cs) \<Longrightarrow>
   substitute (c # cs) name title = c # substitute cs name title"
  by (subst substitute.simps) auto

lemma py_replace_Nil: "old \<noteq> [] \<Longrightarrow> py_replace [] old new = []"
  by (simp add: py_replace.simps)

lemma py_replace_hit:
  "old \<noteq> [] \<Longrightarrow> prefix old s \<Longrightarrow> n = length old \<Longrightarrow>
   py_replace s old new = new @ py_replace (drop n s) old new"
  by (subst py_replace.simps) auto

lemma py_replace_miss:
  "old \<noteq> [] \<Longrightarrow> \<not> prefix old (c # s) \<Longrightarrow> py_replace (c # s) old new = c # py_replace s old new"
  by (subst py_replace.simps) simp

lemma py_replace_other_head:
  "old \<noteq> [] \<Longrightarrow> c \<noteq> hd old \<Longrightarrow> py_replace (c # s) old new = c # py_replace s old new"
proof -
  assume a: "old \<noteq> []" "c \<noteq> hd old"
  then have "\<not> prefix old (c # s)" by (cases old) auto
  with a show ?thesis by (simp add: py_replace_miss)
qed

lemma py_replace_skip:
  "old \<noteq> [] \<Longrightarrow> hd old \<notin> set w \<Longrightarrow> py_replace (w @ x) old new = w @ py_replace x old new"
proof (induction w)
  case Nil
  then show ?case by simp
next
  case (Cons a w)
  then have "py_replace (a # (w @ x)) old new = a # py_replace (w @ x) old new"
    by (intro py_replace_other_head) auto
  with Cons show ?case by simp
qed

lemma prefix_py_replace:
  assumes "w \<noteq> []" "old \<noteq> []"
  shows "hd old \<notin> set p \<Longrightarrow> hd w \<notin> set p \<Longrightarrow> prefix p (py_replace s old w) \<Longrightarrow> prefix p s"
proof (induction p arbitrary: s)
  case Nil
  then show ?case by simp
next
  case (Cons a p)
  show ?case
  proof (cases s)
    case Nil
    with Cons.prems assms show ?thesis by (simp add: py_replace_Nil)
  next
    case (Cons d ds)
    show ?thesis
    proof (cases "prefix old s")
      case True
      with assms have "py_replace s old w = w @ py_replace (drop (length old) s) old w"
        by (intro py_replace_hit) simp_all
      with Cons.prems assms have "a = hd w" by (cases w) auto
      with Cons.prems show ?thesis by simp
    next
      case False
      with assms \<open>s = d # ds\<close> have "py_replace s old w = d # py_replace ds old w"
        by (simp add: py_replace_miss)
      with Cons.prems Cons.IH [of ds] \<open>s = d # ds\<close> show ?thesis by simp
    qed
  qed
qed

lemma job_title_untouched:
  "py_replace (codes ''{job_title}'' @ rest) (codes ''{name}'') w
   = codes ''{job_title}'' @ py_replace rest (codes ''{name}'') w"
proof -
  let ?N = "[123, 110, 97, 109, 101, 125] :: nat list"
  let ?tail = "[106, 111, 98, 95, 116, 105, 116, 108, 101, 125] :: nat list"
  have "py_replace (123 # ?tail @ rest) ?N w = 123 # py_replace (?tail @ rest) ?N w"
    by (rule py_replace_miss) simp_all
  also have "py_replace (?tail @ rest) ?N w = ?tail @ py_replace rest ?N w"
    by (rule py_replace_skip) simp_all
  finally show ?thesis by (simp add: codes_name codes_job_title)
qed

lemma sequential_is_simultaneous:
  assumes w: "w \<noteq> []" "123 \<notin> set w" "hd w \<notin> set (codes ''job_title}'')"
  shows "py_replace (py_replace t (codes ''{name}'') w) (codes ''{job_title}'') j
         = substitute t w j"
proof (induction t rule: length_induct)
  case (1 t)
  let ?N = "codes ''{name}''" and ?J = "codes ''{job_title}''"
  have N: "?N \<noteq> []" "length ?N = 6" "hd ?N = 123" by (simp_all add: codes_name)
  have J: "?J \<noteq> []" "length ?J = 11" "hd ?J = 123" "?J = 123 # codes ''job_title}''"
    by (simp_all add: codes_def)
  show ?case
  proof (cases t)
    case Nil
    then show ?thesis using N J by (simp add: py_replace_Nil substitute_Nil)
  next
    case (Cons c cs)
    show ?thesis
    proof (cases "prefix ?N t")
      case True
      then have len: "6 \<le> length t" using prefix_length_le N(2) by fastforce
      have "py_replace t ?N w = w @ py_replace (drop 6 t) ?N w"
        by (rule py_replace_hit [OF N(1) True]) (simp add: N)
      moreover have "py_replace (w @ py_replace (drop 6 t) ?N w) ?J j
          = w @ py_replace (py_replace (drop 6 t) ?N w) ?J j"
        using w J by (intro py_replace_skip) simp_all
      moreover have "py_replace (py_replace (drop 6 t) ?N w) ?J j = substitute (drop 6 t) w j"
        using 1 len Cons by simp
      moreover have "substitute t w j = w @ substitute (drop 6 t) w j"
        using True by (rule substitute_name)
      ultimately show ?thesis by simp
    next
      case nn: False
      show ?thesis
      proof (cases "prefix ?J t")
        case True
        then obtain rest where t: "t = ?J @ rest" by (auto simp: prefix_def)
        have "py_replace t ?N w = ?J @ py_replace rest ?N w"
          unfolding t by (rule job_title_untouched)
        moreover have "py_replace (?J @ py_replace rest ?N w) ?J j
            = j @ py_replace (py_replace rest ?N w) ?J j"
          using py_replace_hit [of ?J "?J @ py_replace rest ?N w" 11 j] J by simp
        moreover have "py_replace (py_replace rest ?N w) ?J j = substitute rest w j"
          using 1 t J by simp
        moreover have "substitute t w j = j @ substitute rest w j"
          using substitute_title [OF True, of w j] t J by simp
        ultimately show ?thesis by simp
      next
        case nj: False
        have r1: "py_replace t ?N w = c # py_replace cs ?N w"
          using nn Cons N by (simp add: py_replace_miss)
        have "\<not> prefix ?J (c # py_replace cs ?N w)"
        proof
          assume p: "prefix ?J (c # py_replace cs ?N w)"
          then have c: "c = 123" and pj: "prefix (codes ''job_title}'') (py_replace cs ?N w)"
            unfolding J(4) by auto
          have "hd ?N \<notin> set (codes ''job_title}'')" by (simp add: codes_def)
          from prefix_py_replace [OF w(1) N(1) this w(3) pj]
          have "prefix (codes ''job_title}'') cs" .
          with c Cons nj show False unfolding J(4) by simp
        qed
        then have "py_replace (c # py_replace cs ?N w) ?J j
            = c # py_replace (py_replace cs ?N w) ?J j"
          using J by (simp add: py_replace_miss)
        moreover have "py_replace (py_replace cs ?N w) ?J j = substitute cs w j"
          using 1 Cons by simp
        moreover have "substitute t w j = c # substitute cs w j"
          using nn nj unfolding Cons by (rule substitute_other)
        ultimately show ?thesis using r1 by simp
      qed
    qed
  qed
qed


subsection \<open>Capitalized user names\<close>

lemma char_of_is: "n < 256 \<Longrightarrow> (char_of (n::nat) = c) = (n = of_char c)"
  by (metis of_char_of mod_less char_of_char)

lemma of_char_brace: "((of_char c :: nat) = 123) = (c = CHR ''{'')"
  using of_char_eq_iff [of c "CHR ''{''", where ?'a = nat] by simp

lemma of_char_underscore: "((of_char c :: nat) = 95) = (c = CHR ''_'')"
  using of_char_eq_iff [of c "CHR ''_''", where ?'a = nat] by simp

lemma of_char_closing: "((of_char c :: nat) = 125) = (c = CHR ''}'')"
  using of_char_eq_iff [of c "CHR ''}''", where ?'a = nat] by simp

lemma title_char_not_brace: "c \<noteq> CHR ''{'' \<Longrightarrow> 123 \<notin> set (py_title_char c)"
  using of_char_brace [of c] by (auto simp: py_title_char_def Let_def)

lemma lower_not_brace: "py_lower_char c = CHR ''{'' \<Longrightarrow> c = CHR ''{''"
  by (auto simp: py_lower_char_def Let_def char_of_is split: if_splits)

lemma codes_lower_not_brace: "CHR ''{'' \<notin> set cs \<Longrightarrow> 123 \<notin> set (codes (map py_lower_char cs))"
  by (auto simp: codes_def of_char_brace dest: lower_not_brace)

lemma brace_capitalize: "CHR ''{'' \<notin> set u \<Longrightarrow> 123 \<notin> set (capitalize u)"
proof (cases u)
  case Nil
  then show ?thesis by (simp add: capitalize_def)
next
  case (Cons c cs)
  assume a: "CHR ''{'' \<notin> set u"
  have "123 \<notin> set (py_title_char c)" using a Cons by (intro title_char_not_brace) auto
  moreover have "123 \<notin> set (codes (map py_lower_char cs))"
    using a Cons by (intro codes_lower_not_brace) auto
  ultimately show ?thesis using Cons by (simp add: capitalize_def)
qed

lemma title_char_nonempty: "py_title_char c \<noteq> []"
  by (simp add: py_title_char_def Let_def)

lemma capitalize_nonempty: "u \<noteq> [] \<Longrightarrow> capitalize u \<noteq> []"
  by (cases u) (simp_all add: capitalize_def title_char_nonempty)

lemma title_char_outside:
  "c \<noteq> CHR ''_'' \<Longrightarrow> c \<noteq> CHR ''}'' \<Longrightarrow> hd (py_title_char c) \<notin> set (codes ''job_title}'')"
proof -
  assume "c \<noteq> CHR ''_''" "c \<noteq> CHR ''}''"
  then have n: "(of_char c :: nat) \<noteq> 95" "(of_char c :: nat) \<noteq> 125"
    by (simp_all add: of_char_underscore of_char_closing)
  have j: "set (codes ''job_title}'') = {106, 111, 98, 95, 116, 105, 108, 101, 125}"
    by (auto simp: codes_def)
  show ?thesis unfolding j using n by (auto simp: py_title_char_def Let_def)
qed

lemma capitalize_outside:
  "u \<noteq> [] \<Longrightarrow> hd u \<noteq> CHR ''_'' \<Longrightarrow> hd u \<noteq> CHR ''}'' \<Longrightarrow>
   hd (capitalize u) \<notin> set (codes ''job_title}'')"
  using title_char_outside [of "hd u"] title_char_nonempty [of "hd u"]
  by (cases u) (simp_all add: capitalize_def)


subsection \<open>The ways through the pipeline\<close>

lemma search_in_nonempty: "search_in s = Some x \<Longrightarrow> x \<noteq> []"
  by (induction s) (auto split: if_splits)

lemma extract_nonempty: "extract_linkedin_username host_ok u = Some x \<Longrightarrow> x \<noteq> []"
  by (auto simp: extract_linkedin_username_def search_in_nonempty split: if_splits option.splits)

lemma process_no_username:
  "extract_linkedin_username host_ok linkedin_url = None \<Longrightarrow>
   process_linkedin_profile host_ok api linkedin_url mt ct api_key dsn account_id personalize
   = Inr \<lparr>url = linkedin_url, username = None, job_title = PyNone, provider_id = PyNone,
           action = None, status = Some ''Failed'',
           error = Some (''Could not extract username from URL: '' @ linkedin_url)\<rparr>"
  by (simp add: process_linkedin_profile_def)

lemma process_resolver_raises:
  "extract_linkedin_username host_ok linkedin_url = Some uname \<Longrightarrow>
   get_user_provider_id api uname api_key dsn account_id = Inl e \<Longrightarrow>
   process_linkedin_profile host_ok api linkedin_url mt ct api_key dsn account_id personalize
   = Inl e"
  by (frule extract_nonempty) (simp add: process_linkedin_profile_def and_then_def)

lemma process_unresolved:
  "extract_linkedin_username host_ok linkedin_url = Some uname \<Longrightarrow>
   get_user_provider_id api uname api_key dsn account_id = Inr (pid, Some reason) \<Longrightarrow>
   reason \<noteq> [] \<Longrightarrow>
   process_linkedin_profile host_ok api linkedin_url mt ct api_key dsn account_id personalize
   = Inr \<lparr>url = linkedin_url, username = Some uname, job_title = PyNone, provider_id = PyNone,
           action = None, status = Some ''Failed'', error = Some reason\<rparr>"
  by (frule extract_nonempty) (simp add: process_linkedin_profile_def and_then_def)

lemma process_send_stage:
  "extract_linkedin_username host_ok linkedin_url = Some uname \<Longrightarrow>
   get_user_provider_id api uname api_key dsn account_id = Inr (pid, err) \<Longrightarrow>
   err = None \<or> err = Some [] \<Longrightarrow>
   process_linkedin_profile host_ok api linkedin_url mt ct api_key dsn account_id personalize
   = and_then (personalize_templates api uname mt ct api_key dsn account_id personalize)
       (\<lambda>(title, pm, pc).
          deliver api \<lparr>url = linkedin_url, username = Some uname, job_title = title,
                        provider_id = pid, action = None, status = None, error = None\<rparr>
            pid pm pc api_key dsn account_id)"
  by (frule extract_nonempty) (auto simp: process_linkedin_profile_def and_then_def split: sum.splits)

lemma deliver_message:
  "send_message api pid pm api_key dsn account_id = Inr (True, t) \<Longrightarrow>
   deliver api r pid pm pc api_key dsn account_id
   = Inr (r\<lparr>action := Some ''Message'', status := Some ''Success''\<rparr>)"
  by (simp add: deliver_def and_then_def)

lemma deliver_invite:
  "send_message api pid pm api_key dsn account_id = Inr (False, t) \<Longrightarrow>
   send_connection_request api pid pc api_key dsn account_id = Inr (True, t') \<Longrightarrow>
   deliver api r pid pm pc api_key dsn account_id
   = Inr (r\<lparr>action := Some ''Connection Request'', status := Some ''Success''\<rparr>)"
  by (simp add: deliver_def and_then_def)

lemma deliver_failed:
  "send_message api pid pm api_key dsn account_id = Inr (False, t) \<Longrightarrow>
   send_connection_request api pid pc api_key dsn account_id = Inr (False, t') \<Longrightarrow>
   deliver api r pid pm pc api_key dsn account_id
   = Inr (r\<lparr>action := Some ''Connection Request'', status := Some ''Failed'', error := Some t'\<rparr>)"
  by (simp add: deliver_def and_then_def)

lemma deliver_shape:
  assumes "deliver api r pid pm pc api_key dsn account_id = Inr r'" and "error r = None"
  shows "(action r' = Some ''Message'' \<or> action r' = Some ''Connection Request'')
         \<and> (error r' \<noteq> None \<longleftrightarrow> status r' = Some ''Failed'')
         \<and> job_title r' = job_title r \<and> username r' = username r"
  using assms
  by (auto simp: deliver_def and_then_def split: sum.splits if_splits prod.splits)

lemma process_cases:
  assumes "process_linkedin_profile host_ok api linkedin_url mt ct api_key dsn account_id personalize = Inr r"
  obtains
    (no_username) "extract_linkedin_username host_ok linkedin_url = None"
      "r = \<lparr>url = linkedin_url, username = None, job_title = PyNone, provider_id = PyNone,
           action = None, status = Some ''Failed'',
           error = Some (''Could not extract username from URL: '' @ linkedin_url)\<rparr>"
  | (unresolved) uname pid reason where
      "extract_linkedin_username host_ok linkedin_url = Some uname"
      "get_user_provider_id api uname api_key dsn account_id = Inr (pid, Some reason)"
      "reason \<noteq> []"
      "r = \<lparr>url = linkedin_url, username = Some uname, job_title = PyNone, provider_id = PyNone,
           action = None, status = Some ''Failed'', error = Some reason\<rparr>"
  | (sent) uname pid err title pm pc where
      "extract_linkedin_username host_ok linkedin_url = Some uname"
      "get_user_provider_id api uname api_key dsn account_id = Inr (pid, err)"
      "err = None \<or> err = Some []"
      "personalize_templates api uname mt ct api_key dsn account_id personalize = Inr (title, pm, pc)"
      "deliver api \<lparr>url = linkedin_url, username = Some uname, job_title = title,
                        provider_id = pid, action = None, status = None, error = None\<rparr>
            pid pm pc api_key dsn account_id = Inr r"
proof (cases "extract_linkedin_username host_ok linkedin_url")
  case None
  with assms process_no_username [OF None, of api mt ct api_key dsn account_id personalize]
  show ?thesis by (intro no_username) simp_all
next
  case (Some uname)
  show ?thesis
  proof (cases "get_user_provider_id api uname api_key dsn account_id")
    case (Inl e)
    with assms process_resolver_raises [OF Some Inl, of mt ct personalize] show ?thesis by simp
  next
    case (Inr p)
    obtain pid err where p: "p = (pid, err)" by (cases p)
    show ?thesis
    proof (cases "err = None \<or> err = Some []")
      case True
      from process_send_stage [OF Some Inr [unfolded p] True, of mt ct personalize] assms
      obtain title pm pc where
        "personalize_templates api uname mt ct api_key dsn account_id personalize = Inr (title, pm, pc)"
        "deliver api \<lparr>url = linkedin_url, username = Some uname, job_title = title,
                        provider_id = pid, action = None, status = None, error = None\<rparr>
            pid pm pc api_key dsn account_id = Inr r"
        by (auto simp: and_then_def split: sum.splits)
      with Some Inr p True show ?thesis by (intro sent) simp_all
    next
      case False
      then obtain reason where e: "err = Some reason" "reason \<noteq> []" by auto
      from process_unresolved [OF Some Inr [unfolded p e(1)] e(2), of mt ct personalize] assms
      show ?thesis using Some Inr p e by (intro unresolved) simp_all
    qed
  qed
qed

subsection \<open>The job title\<close>







section \<open>The claims about the profile finder\<close>

subsection \<open>Where the entries of the list come from\<close>

lemma scan_targeted_within:
  "set (profile_urls s) \<subseteq> C \<Longrightarrow>
   \<forall>u \<in> set urls. \<forall>p. first_match u = Some p \<longrightarrow> p \<in> C \<Longrightarrow>
   set (profile_urls (snd (scan_targeted n nq i t j urls s))) \<subseteq> C"
proof (induction urls arbitrary: j s)
  case Nil
  then show ?case by simp
next
  case (Cons url rest)
  have rest: "\<forall>u \<in> set rest. \<forall>p. first_match u = Some p \<longrightarrow> p \<in> C"
    using Cons.prems(2) by simp
  have a: "set (profile_urls (targeted_tick nq i t j s)) \<subseteq> C" using Cons.prems(1) by simp
  show ?case
  proof (cases "first_match url")
    case None
    from Cons.IH [OF a rest] None show ?thesis by simp
  next
    case (Some p)
    then have p: "p \<in> C" using Cons.prems(2) by simp
    have b: "set (profile_urls (targeted_tick nq i t j (append_profile p s))) \<subseteq> C"
      using Cons.prems(1) p by simp
    show ?thesis
      using Some Cons.IH [OF a rest] Cons.IH [OF b rest] Cons.prems(1) p
      by (simp add: Let_def)
  qed
qed

lemma scan_broader_within:
  "set (profile_urls s) \<subseteq> C \<Longrightarrow>
   \<forall>u \<in> set urls. \<forall>p. first_match u = Some p \<longrightarrow> p \<in> C \<Longrightarrow>
   set (profile_urls (scan_broader n t j urls s)) \<subseteq> C"
proof (induction urls arbitrary: j s)
  case Nil
  then show ?case by simp
next
  case (Cons url rest)
  have rest: "\<forall>u \<in> set rest. \<forall>p. first_match u = Some p \<longrightarrow> p \<in> C"
    using Cons.prems(2) by simp
  have a: "set (profile_urls (broader_tick t j s)) \<subseteq> C" using Cons.prems(1) by simp
  show ?case
  proof (cases "first_match url")
    case None
    from Cons.IH [OF a rest] None show ?thesis by simp
  next
    case (Some p)
    then have p: "p \<in> C" using Cons.prems(2) by simp
    have b: "set (profile_urls (broader_tick t j (append_profile p s))) \<subseteq> C"
      using Cons.prems(1) p by simp
    show ?thesis
      using Some Cons.IH [OF a rest] Cons.IH [OF b rest] Cons.prems(1) p
      by (simp add: Let_def)
  qed
qed

lemma run_queries_within:
  "set (profile_urls s) \<subseteq> C \<Longrightarrow>
   \<forall>q \<in> set qs. \<forall>urls. search q = Inr urls \<longrightarrow>
     (\<forall>u \<in> set urls. \<forall>p. first_match u = Some p \<longrightarrow> p \<in> C) \<Longrightarrow>
   set (profile_urls (snd (run_queries search n nq i qs s))) \<subseteq> C"
proof (induction qs arbitrary: i s)
  case Nil
  then show ?case by simp
next
  case (Cons q qs)
  let ?s1 = "emit (Search q) (emit (Progress (of_nat i / of_nat nq * (1 / 2))) s)"
  have d1: "set (profile_urls ?s1) \<subseteq> C" using Cons.prems(1) by simp
  have later: "\<forall>q \<in> set qs. \<forall>urls. search q = Inr urls \<longrightarrow>
     (\<forall>u \<in> set urls. \<forall>p. first_match u = Some p \<longrightarrow> p \<in> C)"
    using Cons.prems(2) by simp
  show ?case
  proof (cases "search q")
    case (Inl e)
    then show ?thesis using Cons.IH [OF d1 later] by (simp add: Let_def)
  next
    case (Inr rs)
    obtain b s2 where sc: "scan_targeted n nq i (length rs) 0 rs ?s1 = (b, s2)"
      by (cases "scan_targeted n nq i (length rs) 0 rs ?s1")
    have here: "\<forall>u \<in> set rs. \<forall>p. first_match u = Some p \<longrightarrow> p \<in> C"
      using Cons.prems(2) Inr by simp
    have d2: "set (profile_urls s2) \<subseteq> C"
      using scan_targeted_within [OF d1 here, where n = n and nq = nq and i = i
          and t = "length rs" and j = 0] sc
      by simp
    show ?thesis using Inr sc d2 Cons.IH [OF d2 later] by (cases b) (simp_all add: Let_def)
  qed
qed

lemma broader_search_within:
  assumes a: "set (profile_urls s) \<subseteq> C"
    and b: "\<forall>urls. search (broader_query k) = Inr urls \<longrightarrow>
     (\<forall>u \<in> set urls. \<forall>p. first_match u = Some p \<longrightarrow> p \<in> C)"
  shows "set (profile_urls (broader_search search k n s)) \<subseteq> C"
proof (cases "search (broader_query k)")
  case (Inl e)
  with a show ?thesis by (simp add: broader_search_def Let_def)
next
  case (Inr rs)
  have s1: "set (profile_urls (emit (Search (broader_query k)) s)) \<subseteq> C" using a by simp
  have here: "\<forall>u \<in> set rs. \<forall>p. first_match u = Some p \<longrightarrow> p \<in> C"
    using b Inr by simp
  from scan_broader_within [OF s1 here] a Inr show ?thesis
    by (simp add: broader_search_def Let_def)
qed

lemma search_within:
  assumes "\<forall>q \<in> set (queries k d @ [broader_query k]). \<forall>urls. search q = Inr urls \<longrightarrow>
     (\<forall>u \<in> set urls. \<forall>p. first_match u = Some p \<longrightarrow> p \<in> C)"
  shows "set (profile_urls (search_linkedin_profiles search k d n)) \<subseteq> C"
proof -
  let ?s0 = "\<lparr>profile_urls = [], events = [Progress 0]\<rparr>"
  obtain b s where r: "run_queries search n (length (queries k d)) 0 (queries k d) ?s0 = (b, s)"
    by (cases "run_queries search n (length (queries k d)) 0 (queries k d) ?s0")
  have e: "set (profile_urls ?s0) \<subseteq> C" by simp
  have qs: "\<forall>q \<in> set (queries k d). \<forall>urls. search q = Inr urls \<longrightarrow>
     (\<forall>u \<in> set urls. \<forall>p. first_match u = Some p \<longrightarrow> p \<in> C)"
    using assms by simp
  have bq: "\<forall>urls. search (broader_query k) = Inr urls \<longrightarrow>
     (\<forall>u \<in> set urls. \<forall>p. first_match u = Some p \<longrightarrow> p \<in> C)"
    using assms by simp
  from run_queries_within [OF e qs, where n = n and nq = "length (queries k d)" and i = 0] r
  have d: "set (profile_urls s) \<subseteq> C" by simp
  show ?thesis
    using r d broader_search_within [where search = search and k = k and n = n, OF d bq]
    by (cases b) (simp_all add: search_linkedin_profiles_def Let_def)
qed

lemma search_captures:
  "p \<in> set (profile_urls (search_linkedin_profiles search k d n)) \<Longrightarrow>
   \<exists>q \<in> set (queries k d @ [broader_query k]).
     \<exists>urls. search q = Inr urls \<and> (\<exists>u \<in> set urls. first_match u = Some p)"
proof -
  let ?C = "{p. \<exists>q \<in> set (queries k d @ [broader_query k]).
     \<exists>urls. search q = Inr urls \<and> (\<exists>u \<in> set urls. first_match u = Some p)}"
  have "set (profile_urls (search_linkedin_profiles search k d n)) \<subseteq> ?C"
    by (rule search_within) blast
  moreover assume "p \<in> set (profile_urls (search_linkedin_profiles search k d n))"
  ultimately show ?thesis by blast
qed


subsection \<open>C1: what the list is free of\<close>

text \<open>
  C1 says that the returned sequence never holds two handles with the same user name,
  whatever the protocol, the trailing slash or the query string of the result URLs. The
  source compares the text that the profile pattern captures, not the user name. For the
  sample provider the run returns three URLs, and \<open>extract_linkedin_username\<close> reads the
  same user name \<open>john\<close> off each of them.
\<close>

theorem same_username_twice:
  "profile_urls (search_linkedin_profiles john_pages ''Data Scientist'' ''fintech London'' 10)
     = [''https://www.linkedin.com/in/john'', ''http://www.linkedin.com/in/john'',
        ''https://www.linkedin.com/in/john?trk=public'']
   \<and> map (extract_linkedin_username no_ip_literal)
         (profile_urls (search_linkedin_profiles john_pages ''Data Scientist'' ''fintech London'' 10))
     = [Some ''john'', Some ''john'', Some ''john'']"
  by code_simp

text \<open>
  C1 as amended: for every search provider, key word, description and bound, the returned
  sequence never holds the same URL text twice; every entry of it is the text that the
  profile pattern captures from a URL returned by one of the queries of the run (the
  three targeted queries and the broader query), and this captured text is the key of the
  deduplication; the captured text is the same for a result URL that does not end in a
  slash and for the same URL with one slash added at its end, so two result URLs that
  differ only in such a trailing slash contribute at most one entry.
\<close>

theorem no_url_twice:
  "distinct (profile_urls (search_linkedin_profiles search keyword description num_results))
   \<and> (\<forall>p \<in> set (profile_urls (search_linkedin_profiles search keyword description num_results)).
        \<exists>q \<in> set (queries keyword description @ [broader_query keyword]).
          \<exists>urls. search q = Inr urls \<and> (\<exists>u \<in> set urls. first_match u = Some p))
   \<and> (\<forall>u. u = [] \<or> last u \<noteq> CHR ''/'' \<longrightarrow> first_match (u @ ''/'') = first_match u)"
  using search_captures [of _ search keyword description num_results]
  by (simp add: search_distinct first_match_slash)

theorem no_url_twice_witness:
  "distinct (profile_urls (search_linkedin_profiles john_pages ''Data Scientist'' ''fintech London'' 10))
   \<and> list_ex (\<lambda>q. case john_pages q of
                    Inl e \<Rightarrow> False
                  | Inr urls \<Rightarrow>
                      list_ex (\<lambda>u. first_match u = Some ''https://www.linkedin.com/in/john'') urls)
        (queries ''Data Scientist'' ''fintech London'' @ [broader_query ''Data Scientist''])
   \<and> first_match ''https://www.linkedin.com/in/john/'' = first_match ''https://www.linkedin.com/in/john''"
proof -
  note t = no_url_twice [of john_pages "''Data Scientist''" "''fintech London''" 10]
  have "''https://www.linkedin.com/in/john'' = []
        \<or> last ''https://www.linkedin.com/in/john'' \<noteq> CHR ''/''"
    by simp
  with t have slash: "first_match (''https://www.linkedin.com/in/john'' @ ''/'')
        = first_match ''https://www.linkedin.com/in/john''"
    by blast
  have "''https://www.linkedin.com/in/john''
        \<in> set (profile_urls (search_linkedin_profiles john_pages ''Data Scientist'' ''fintech London'' 10))"
    by code_simp
  with t obtain q urls u where
    "q \<in> set (queries ''Data Scientist'' ''fintech London'' @ [broader_query ''Data Scientist''])"
    "john_pages q = Inr urls" "u \<in> set urls"
    "first_match u = Some ''https://www.linkedin.com/in/john''"
    by blast
  then have "list_ex (\<lambda>q. case john_pages q of
                    Inl e \<Rightarrow> False
                  | Inr urls \<Rightarrow>
                      list_ex (\<lambda>u. first_match u = Some ''https://www.linkedin.com/in/john'') urls)
        (queries ''Data Scientist'' ''fintech London'' @ [broader_query ''Data Scientist''])"
    unfolding list_ex_iff by force
  with t slash show ?thesis by simp
qed

subsection \<open>C6: the bound on the number of results\<close>

text \<open>
  C6: for every key word, description and positive \<open>num_results\<close>, whatever the queries
  yield, the returned sequence has at most \<open>num_results\<close> entries; and once the list has
  reached \<open>num_results\<close> entries the remaining queries and URLs are skipped: after the
  event that appends the entry number \<open>num_results\<close>, the run calls no search, examines no
  URL (each examined URL ends in a \<open>Found\<close> or a \<open>Sleep\<close>) and only sets the progress bar
  to 1.
\<close>

theorem at_most_num_results:
  "0 < num_results \<Longrightarrow>
   int (length (profile_urls (search_linkedin_profiles search keyword description num_results)))
     \<le> num_results
   \<and> (\<forall>pre post.
        events (search_linkedin_profiles search keyword description num_results) = pre @ post
        \<and> num_results \<le> int (length (filter is_found pre))
        \<longrightarrow> (\<forall>e \<in> set post. e = Progress 1))"
  using search_settled [of num_results search keyword description]
  unfolding settled_def quiet_def found_count_def by blast

lemma john_two_events:
  "events (search_linkedin_profiles john_pages ''Data Scientist'' ''fintech London'' 2)
   = [Progress 0, Progress 0,
      Search (hd (queries ''Data Scientist'' ''fintech London'')),
      Found ''https://www.linkedin.com/in/john'', Progress (8 / 15), Sleep,
      Progress (17 / 30), Sleep,
      Found ''http://www.linkedin.com/in/john''] @ [Progress 1]"
  by code_simp

theorem at_most_num_results_witness:
  "(0::int) < 2
   \<and> int (length (profile_urls
        (search_linkedin_profiles john_pages ''Data Scientist'' ''fintech London'' 2))) \<le> 2
   \<and> list_all (\<lambda>e. e = Progress 1)
        (drop 9 (events (search_linkedin_profiles john_pages ''Data Scientist'' ''fintech London'' 2)))"
proof -
  have pos: "(0::int) < 2" by simp
  note cap = at_most_num_results [OF pos, of john_pages "''Data Scientist''" "''fintech London''"]
  let ?pre = "[Progress 0, Progress 0,
      Search (hd (queries ''Data Scientist'' ''fintech London'')),
      Found ''https://www.linkedin.com/in/john'', Progress (8 / 15), Sleep,
      Progress (17 / 30), Sleep,
      Found ''http://www.linkedin.com/in/john'']"
  have "(2::int) \<le> int (length (filter is_found ?pre))" by simp
  with cap john_two_events have "\<forall>e\<in>set [Progress 1]. e = Progress 1" by blast
  moreover have "drop 9 (events (search_linkedin_profiles john_pages ''Data Scientist'' ''fintech London'' 2))
                 = [Progress 1]"
    unfolding john_two_events by simp
  ultimately show ?thesis using cap by simp
qed

subsection \<open>C8: a query that fails\<close>

lemma searches_append [simp]: "searches (xs @ ys) = searches xs @ searches ys"
  by (induction xs rule: searches.induct) simp_all

lemma run_queries_skipping:
  "run_queries (skipping search) n nq i qs s = run_queries search n nq i qs s"
proof (induction qs arbitrary: i s)
  case Nil
  then show ?case by simp
next
  case (Cons q qs)
  show ?case
  proof (cases "search q")
    case (Inl e)
    then show ?thesis using Cons.IH by (simp add: skipping_def Let_def)
  next
    case (Inr urls)
    then show ?thesis using Cons.IH by (simp add: skipping_def Let_def split: prod.splits bool.splits)
  qed
qed

lemma broader_search_skipping:
  "broader_search (skipping search) k n s = broader_search search k n s"
  by (cases "search (broader_query k)") (simp_all add: broader_search_def skipping_def Let_def)

lemma search_skipping:
  "search_linkedin_profiles (skipping search) k d n = search_linkedin_profiles search k d n"
  by (simp add: search_linkedin_profiles_def run_queries_skipping broader_search_skipping
        cong: prod.case_cong bool.case_cong)

lemma run_queries_all_fail:
  "\<forall>q\<in>set qs. isl (search q) \<Longrightarrow>
   \<exists>s'. run_queries search n nq i qs s = (False, s') \<and> profile_urls s' = profile_urls s
        \<and> searches (events s') = searches (events s) @ qs"
proof (induction qs arbitrary: i s)
  case Nil
  then show ?case by simp
next
  case (Cons q qs)
  let ?s1 = "emit (Search q) (emit (Progress (of_nat i / of_nat nq * (1 / 2))) s)"
  from Cons.prems obtain e where e: "search q = Inl e" by (cases "search q") auto
  from Cons.prems have "\<forall>q\<in>set qs. isl (search q)" by simp
  from Cons.IH [OF this, of "Suc i" ?s1] obtain s' where
    "run_queries search n nq (Suc i) qs ?s1 = (False, s')" "profile_urls s' = profile_urls ?s1"
    "searches (events s') = searches (events ?s1) @ qs" by blast
  with e show ?case by (simp add: Let_def)
qed

lemma all_fail:
  assumes "\<forall>q\<in>set (queries k d @ [broader_query k]). isl (search q)"
  shows "profile_urls (search_linkedin_profiles search k d n) = []"
    and "0 < n \<Longrightarrow> searches (events (search_linkedin_profiles search k d n))
                    = queries k d @ [broader_query k]"
proof -
  let ?s0 = "\<lparr>profile_urls = [], events = [Progress 0]\<rparr>"
  from assms have "\<forall>q\<in>set (queries k d). isl (search q)" by simp
  from run_queries_all_fail [OF this, of n "length (queries k d)" 0 ?s0] obtain s' where
    r: "run_queries search n (length (queries k d)) 0 (queries k d) ?s0 = (False, s')"
    and p: "profile_urls s' = []" and q: "searches (events s') = queries k d" by auto
  from assms obtain e where e: "search (broader_query k) = Inl e"
    by (cases "search (broader_query k)") auto
  show "profile_urls (search_linkedin_profiles search k d n) = []"
    using r p e by (simp add: search_linkedin_profiles_def broader_search_def Let_def)
  show "0 < n \<Longrightarrow> searches (events (search_linkedin_profiles search k d n))
                    = queries k d @ [broader_query k]"
    using r p q e by (simp add: search_linkedin_profiles_def broader_search_def Let_def)
qed

text \<open>
  C8: if every query of the plan (the three targeted queries and the broadening query)
  fails, the run returns the empty sequence; it does not raise (the function of the model
  is total, the handlers of the source being its \<open>Inl\<close> branches), and for a positive
  bound it has sent all four queries, in the order of the plan. More generally a query
  that fails is only skipped: the whole run, the returned list and everything it did,
  is the run in which each failing query had answered with no result.
\<close>

theorem failed_queries_are_skipped:
  "((\<forall>q\<in>set (queries keyword description @ [broader_query keyword]). isl (search q)) \<longrightarrow>
      profile_urls (search_linkedin_profiles search keyword description num_results) = []
      \<and> (0 < num_results \<longrightarrow>
           searches (events (search_linkedin_profiles search keyword description num_results))
           = queries keyword description @ [broader_query keyword]))
   \<and> search_linkedin_profiles (skipping search) keyword description num_results
     = search_linkedin_profiles search keyword description num_results"
  using all_fail [of keyword description search num_results] search_skipping by blast

theorem failed_queries_are_skipped_witness:
  "profile_urls (search_linkedin_profiles (answering []) ''Data Scientist'' ''fintech London'' 10) = []
   \<and> searches (events (search_linkedin_profiles (answering []) ''Data Scientist'' ''fintech London'' 10))
     = queries ''Data Scientist'' ''fintech London'' @ [broader_query ''Data Scientist'']"
proof -
  have "\<forall>q\<in>set (queries ''Data Scientist'' ''fintech London'' @ [broader_query ''Data Scientist'']).
          isl (answering [] q)"
    by (simp add: answering_def)
  moreover have "(0::int) < 10" by simp
  ultimately show ?thesis
    using failed_queries_are_skipped [of "''Data Scientist''" "''fintech London''" "answering []" 10]
    by blast
qed

subsection \<open>C7: the progress fractions\<close>

text \<open>
  C7 says that the progress fractions reported during one run never decrease and lie
  between 0 and 1. The run on the sample provider, whose first targeted query has five
  results, reports 2/3 after the last result of that query and then 1/6 at the start of
  the second query: the per-query report \<open>i / len(queries) * 0.5\<close> starts below the
  per-result reports \<open>0.5 + sub_progress\<close> of the query before it. (The fractions are floats
  in the source; 2/3 and 1/6 are far apart, so rounding does not change their order.)
\<close>

theorem progress_goes_back:
  "progress_values (events (search_linkedin_profiles john_pages ''Data Scientist'' ''fintech London'' 10))
     = [0, 0, 8 / 15, 17 / 30, 3 / 5, 19 / 30, 2 / 3, 1 / 6, 1 / 3, 1]
   \<and> \<not> sorted (progress_values
          (events (search_linkedin_profiles john_pages ''Data Scientist'' ''fintech London'' 10)))"
proof -
  have v: "progress_values (events (search_linkedin_profiles john_pages ''Data Scientist'' ''fintech London'' 10))
     = [0, 0, 8 / 15, 17 / 30, 3 / 5, 19 / 30, 2 / 3, 1 / 6, 1 / 3, 1]"
    by code_simp
  show ?thesis unfolding v by simp
qed

text \<open>The other half of C7 holds: every reported fraction lies between 0 and 1.\<close>

lemma progress_values_append [simp]:
  "progress_values (xs @ ys) = progress_values xs @ progress_values ys"
  by (induction xs rule: progress_values.induct) simp_all

lemma events_targeted_tick:
  "events (targeted_tick nq i t j s)
   = events s @ [Progress (min (1 / 2 + (of_nat i + (of_nat j + 1) / of_nat t) / of_nat nq * (1 / 2))
                            (9 / 10)), Sleep]"
  by (simp add: targeted_tick_def Let_def)

lemma events_broader_tick:
  "events (broader_tick t j s)
   = events s @ [Progress (min (9 / 10 + (of_nat j + 1) / of_nat t * (1 / 10)) (99 / 100)), Sleep]"
  by (simp add: broader_tick_def)

lemma unit_progress_append:
  "unit_progress (xs @ ys) \<longleftrightarrow> unit_progress xs \<and> unit_progress ys"
  by (auto simp: unit_progress_def)

lemma unit_progress_snoc:
  "unit_progress (es @ [e]) \<longleftrightarrow> unit_progress es \<and> (case e of Progress x \<Rightarrow> 0 \<le> x \<and> x \<le> 1 | _ \<Rightarrow> True)"
  by (cases e) (auto simp: unit_progress_def)

lemma unit_progress_tick:
  "0 \<le> x \<Longrightarrow> x \<le> 1 \<Longrightarrow> unit_progress [Progress x, Sleep]"
  by (simp add: unit_progress_def)

lemma unit_targeted_tick:
  assumes "unit_progress (events s)"
  shows "unit_progress (events (targeted_tick nq i t j s))"
proof -
  let ?sub = "(of_nat i + (of_nat j + 1) / of_nat t) / of_nat nq * (1 / 2) :: rat"
  have "0 \<le> ?sub" by simp
  then have "0 \<le> min (1 / 2 + ?sub) (9 / 10)" by simp
  moreover have "min (1 / 2 + ?sub) (9 / 10) \<le> 1" by (simp add: min_le_iff_disj)
  ultimately have "unit_progress [Progress (min (1 / 2 + ?sub) (9 / 10)), Sleep]"
    by (rule unit_progress_tick)
  with assms show ?thesis by (simp only: events_targeted_tick unit_progress_append)
qed

lemma unit_broader_tick:
  assumes "unit_progress (events s)"
  shows "unit_progress (events (broader_tick t j s))"
proof -
  let ?x = "9 / 10 + (of_nat j + 1) / of_nat t * (1 / 10) :: rat"
  have "0 \<le> (of_nat j + 1) / of_nat t * (1 / 10 :: rat)" by simp
  then have "0 \<le> min ?x (99 / 100)" by simp
  moreover have "min ?x (99 / 100) \<le> 1" by (simp add: min_le_iff_disj)
  ultimately have "unit_progress [Progress (min ?x (99 / 100)), Sleep]"
    by (rule unit_progress_tick)
  with assms show ?thesis by (simp only: events_broader_tick unit_progress_append)
qed

lemma unit_append_profile:
  "unit_progress (events s) \<Longrightarrow> unit_progress (events (append_profile p s))"
  by (simp add: unit_progress_snoc)

lemma unit_scan_targeted:
  "unit_progress (events s) \<Longrightarrow> unit_progress (events (snd (scan_targeted n nq i t j urls s)))"
proof (induction urls arbitrary: j s)
  case Nil
  then show ?case by simp
next
  case (Cons u urls)
  note step = Cons.IH [OF unit_targeted_tick]
  show ?case
    using Cons.prems step [OF Cons.prems] step [OF unit_append_profile [OF Cons.prems]]
    by (auto simp: Let_def unit_progress_snoc unit_progress_append unit_progress_def
          split: option.splits)
qed

lemma unit_scan_broader:
  "unit_progress (events s) \<Longrightarrow> unit_progress (events (scan_broader n t j urls s))"
proof (induction urls arbitrary: j s)
  case Nil
  then show ?case by simp
next
  case (Cons u urls)
  note step = Cons.IH [OF unit_broader_tick]
  show ?case
    using Cons.prems step [OF Cons.prems] step [OF unit_append_profile [OF Cons.prems]]
    by (auto simp: Let_def unit_progress_snoc unit_progress_append unit_progress_def
          split: option.splits)
qed

lemma unit_run_queries:
  "unit_progress (events s) \<Longrightarrow> i + length qs \<le> nq \<Longrightarrow>
   unit_progress (events (snd (run_queries search n nq i qs s)))"
proof (induction qs arbitrary: i s)
  case Nil
  then show ?case by simp
next
  case (Cons q qs)
  let ?s1 = "emit (Search q) (emit (Progress (of_nat i / of_nat nq * (1 / 2))) s)"
  from Cons.prems have "i \<le> nq" by simp
  then have "(of_nat i :: rat) / of_nat nq \<le> 1" by (cases "nq = 0") (simp_all add: divide_le_eq_1)
  then have "(of_nat i :: rat) / of_nat nq * (1 / 2) \<le> 1" by simp
  moreover have "(0::rat) \<le> of_nat i / of_nat nq * (1 / 2)" by simp
  ultimately have "unit_progress [Progress (of_nat i / of_nat nq * (1 / 2)), Search q]"
    by (simp add: unit_progress_def)
  with Cons.prems(1) have u1: "unit_progress (events ?s1)"
    by (simp only: events_emit append_assoc append.simps unit_progress_append)
  from Cons.prems have le: "Suc i + length qs \<le> nq" by simp
  show ?case
  proof (cases "search q")
    case (Inl e)
    then show ?thesis using Cons.IH [OF u1 le] by (simp add: Let_def)
  next
    case (Inr rs)
    obtain b s2 where sc: "scan_targeted n nq i (length rs) 0 rs ?s1 = (b, s2)"
      by (cases "scan_targeted n nq i (length rs) 0 rs ?s1")
    from unit_scan_targeted [OF u1, of n nq i "length rs" 0 rs] sc
    have u2: "unit_progress (events s2)" by simp
    show ?thesis using Inr sc u2 Cons.IH [OF u2 le] by (cases b) (simp_all add: Let_def)
  qed
qed

lemma progress_within_unit:
  "unit_progress (events (search_linkedin_profiles search k d n))"
proof -
  let ?s0 = "\<lparr>profile_urls = [], events = [Progress 0]\<rparr>"
  obtain b s where r: "run_queries search n (length (queries k d)) 0 (queries k d) ?s0 = (b, s)"
    by (cases "run_queries search n (length (queries k d)) 0 (queries k d) ?s0")
  have "unit_progress (events ?s0)" by (simp add: unit_progress_def)
  from unit_run_queries [OF this, of 0 "queries k d" "length (queries k d)" search n] r
  have u: "unit_progress (events s)" by simp
  have "unit_progress (events (broader_search search k n s))"
    using u unit_scan_broader [of "emit (Search (broader_query k)) s"]
    by (auto simp: broader_search_def Let_def unit_progress_snoc split: sum.splits)
  then show ?thesis
    using r u by (cases b) (simp_all add: search_linkedin_profiles_def Let_def unit_progress_snoc)
qed


section \<open>The claims about the outreach manager\<close>

subsection \<open>C2: what the send stage leaves in the result\<close>

text \<open>
  C2: for every profile that reaches the send stage (the user name was read off the URL,
  the resolver handed back no error text, and step 3 produced the two texts): if the
  message send succeeds the result has the action \<open>Message\<close> and the status \<open>Success\<close>;
  if the message send fails and the invitation succeeds it has the action
  \<open>Connection Request\<close> and the status \<open>Success\<close>; if both fail it has the action
  \<open>Connection Request\<close>, the status \<open>Failed\<close> and, as its error, the text that
  \<open>send_connection_request\<close> returned.
\<close>

theorem delivery_outcome:
  "extract_linkedin_username host_ok linkedin_url = Some uname \<Longrightarrow>
   get_user_provider_id api uname api_key dsn account_id = Inr (pid, err) \<Longrightarrow>
   err = None \<or> err = Some [] \<Longrightarrow>
   personalize_templates api uname message_template connection_template api_key dsn account_id
     personalize = Inr (title, pm, pc) \<Longrightarrow>
   (\<forall>t. send_message api pid pm api_key dsn account_id = Inr (True, t) \<longrightarrow>
      (\<exists>r. process_linkedin_profile host_ok api linkedin_url message_template connection_template
              api_key dsn account_id personalize = Inr r
           \<and> action r = Some ''Message'' \<and> status r = Some ''Success''))
   \<and> (\<forall>t t'. send_message api pid pm api_key dsn account_id = Inr (False, t)
         \<and> send_connection_request api pid pc api_key dsn account_id = Inr (True, t') \<longrightarrow>
      (\<exists>r. process_linkedin_profile host_ok api linkedin_url message_template connection_template
              api_key dsn account_id personalize = Inr r
           \<and> action r = Some ''Connection Request'' \<and> status r = Some ''Success''))
   \<and> (\<forall>t t'. send_message api pid pm api_key dsn account_id = Inr (False, t)
         \<and> send_connection_request api pid pc api_key dsn account_id = Inr (False, t') \<longrightarrow>
      (\<exists>r. process_linkedin_profile host_ok api linkedin_url message_template connection_template
              api_key dsn account_id personalize = Inr r
           \<and> action r = Some ''Connection Request'' \<and> status r = Some ''Failed''
           \<and> error r = Some t'))"
  by (simp add: process_send_stage and_then_def deliver_message deliver_invite deliver_failed)

lemma bob_extracted: "extract_linkedin_username no_ip_literal bob_url = Some ''bob''"
  by code_simp

lemma bob_resolved:
  "get_user_provider_id connected ''bob'' ''key'' ''api.unipile.com'' ''acc'' = Inr (PyStr ''p_88'', None)"
  "get_user_provider_id not_connected ''bob'' ''key'' ''api.unipile.com'' ''acc'' = Inr (PyStr ''p_88'', None)"
  "get_user_provider_id refusing ''bob'' ''key'' ''api.unipile.com'' ''acc'' = Inr (PyStr ''p_88'', None)"
  by code_simp+

lemma bob_templates:
  "personalize_templates connected ''bob'' hello invitation ''key'' ''api.unipile.com'' ''acc'' True
   = Inr (PyStr ''Engineer'', (codes ''Hi Bob, you are a Engineer!''), (codes ''Hi Bob, let us connect.''))"
  "personalize_templates not_connected ''bob'' hello invitation ''key'' ''api.unipile.com'' ''acc'' True
   = Inr (PyStr ''Engineer'', (codes ''Hi Bob, you are a Engineer!''), (codes ''Hi Bob, let us connect.''))"
  "personalize_templates refusing ''bob'' hello invitation ''key'' ''api.unipile.com'' ''acc'' True
   = Inr (PyStr ''Engineer'', (codes ''Hi Bob, you are a Engineer!''), (codes ''Hi Bob, let us connect.''))"
  by code_simp+

lemma bob_sends:
  "send_message connected (PyStr ''p_88'') (codes ''Hi Bob, you are a Engineer!'') ''key'' ''api.unipile.com'' ''acc''
   = Inr (True, ''Message sent successfully'')"
  "send_message not_connected (PyStr ''p_88'') (codes ''Hi Bob, you are a Engineer!'') ''key'' ''api.unipile.com'' ''acc''
   = Inr (False, ''Error sending message: 403 Client Error: Forbidden for url'')"
  "send_message refusing (PyStr ''p_88'') (codes ''Hi Bob, you are a Engineer!'') ''key'' ''api.unipile.com'' ''acc''
   = Inr (False, ''Error sending message: 403 Client Error: Forbidden for url'')"
  "send_connection_request not_connected (PyStr ''p_88'') (codes ''Hi Bob, let us connect.'') ''key'' ''api.unipile.com'' ''acc''
   = Inr (True, ''Connection request sent successfully'')"
  "send_connection_request refusing (PyStr ''p_88'') (codes ''Hi Bob, let us connect.'') ''key'' ''api.unipile.com'' ''acc''
   = Inr (False, ''Error sending connection request: 403 Client Error: Forbidden for url'')"
  by code_simp+

theorem delivery_outcome_witness:
  "(\<exists>r. process_linkedin_profile no_ip_literal connected bob_url hello invitation
           ''key'' ''api.unipile.com'' ''acc'' True = Inr r
        \<and> action r = Some ''Message'' \<and> status r = Some ''Success'')
   \<and> (\<exists>r. process_linkedin_profile no_ip_literal not_connected bob_url hello invitation
           ''key'' ''api.unipile.com'' ''acc'' True = Inr r
        \<and> action r = Some ''Connection Request'' \<and> status r = Some ''Success'')
   \<and> (\<exists>r. process_linkedin_profile no_ip_literal refusing bob_url hello invitation
           ''key'' ''api.unipile.com'' ''acc'' True = Inr r
        \<and> action r = Some ''Connection Request'' \<and> status r = Some ''Failed''
        \<and> error r = Some ''Error sending connection request: 403 Client Error: Forbidden for url'')"
proof -
  have none: "(None :: string option) = None \<or> (None :: string option) = Some []" by simp
  note a = delivery_outcome [OF bob_extracted bob_resolved(1) none bob_templates(1)]
  note b = delivery_outcome [OF bob_extracted bob_resolved(2) none bob_templates(2)]
  note c = delivery_outcome [OF bob_extracted bob_resolved(3) none bob_templates(3)]
  from a bob_sends(1) have 1: "\<exists>r. process_linkedin_profile no_ip_literal connected bob_url hello invitation
           ''key'' ''api.unipile.com'' ''acc'' True = Inr r
        \<and> action r = Some ''Message'' \<and> status r = Some ''Success''" by blast
  from b bob_sends(2,4) have 2: "\<exists>r. process_linkedin_profile no_ip_literal not_connected bob_url hello invitation
           ''key'' ''api.unipile.com'' ''acc'' True = Inr r
        \<and> action r = Some ''Connection Request'' \<and> status r = Some ''Success''" by blast
  from c bob_sends(3,5) have 3: "\<exists>r. process_linkedin_profile no_ip_literal refusing bob_url hello invitation
           ''key'' ''api.unipile.com'' ''acc'' True = Inr r
        \<and> action r = Some ''Connection Request'' \<and> status r = Some ''Failed''
        \<and> error r = Some ''Error sending connection request: 403 Client Error: Forbidden for url''"
    by blast
  from 1 2 3 show ?thesis by blast
qed

subsection \<open>C4: a result without an action\<close>

text \<open>
  C4 says that the action of a result is \<open>None\<close> exactly when the pipeline failed before
  any send attempt, that is when no user name could be read off the URL or when the
  resolution of the provider identifier failed, and that the result then has the status
  \<open>Failed\<close> and carries the resolver's reason. The resolver reports a failed lookup as the
  pair of \<open>None\<close> and the text of the exception, and the pipeline tests that text with
  \<open>if error:\<close>, which an empty text does not pass. For a directory whose lookup raises a
  \<open>RequestException\<close> without a message the resolver returns \<open>None\<close> and the empty text;
  the run does not stop there: it looks the job title up, sends the message with the
  provider identifier \<open>None\<close>, and returns the action \<open>Message\<close>, the status \<open>Success\<close>
  and no error.
\<close>

theorem failed_resolution_is_sent:
  "get_user_provider_id silent_failure ''bob'' ''key'' ''api.unipile.com'' ''acc''
     = Inr (PyNone, Some [])
   \<and> process_linkedin_profile no_ip_literal silent_failure bob_url hello invitation
       ''key'' ''api.unipile.com'' ''acc'' True
     = Inr \<lparr>url = bob_url, username = Some ''bob'', job_title = PyStr ''Engineer'',
             provider_id = PyNone, action = Some ''Message'', status = Some ''Success'',
             error = None\<rparr>"
  by code_simp

text \<open>
  Wherever the resolver hands back a reason that is not empty, the results are as C4 has
  them: the action is \<open>None\<close> exactly when no user name could be read off the URL or the
  resolver handed back such a reason; in the first case the status is \<open>Failed\<close> and the
  error is the extraction failure text, in the second the status is \<open>Failed\<close> and the
  error is the resolver's reason; and once \<open>send_message\<close> has been called and has
  returned, the action is \<open>Message\<close> or \<open>Connection Request\<close>, never \<open>None\<close>.
\<close>

lemma action_none_when_a_reason_is_given:
  "process_linkedin_profile host_ok api linkedin_url message_template connection_template
     api_key dsn account_id personalize = Inr r \<Longrightarrow>
   (action r = None \<longleftrightarrow>
      extract_linkedin_username host_ok linkedin_url = None
      \<or> (\<exists>uname pid reason.
            extract_linkedin_username host_ok linkedin_url = Some uname
            \<and> get_user_provider_id api uname api_key dsn account_id = Inr (pid, Some reason)
            \<and> reason \<noteq> []))
   \<and> (extract_linkedin_username host_ok linkedin_url = None \<longrightarrow>
        status r = Some ''Failed''
        \<and> error r = Some (''Could not extract username from URL: '' @ linkedin_url))
   \<and> (\<forall>uname pid reason.
        extract_linkedin_username host_ok linkedin_url = Some uname
        \<and> get_user_provider_id api uname api_key dsn account_id = Inr (pid, Some reason)
        \<and> reason \<noteq> [] \<longrightarrow>
        status r = Some ''Failed'' \<and> error r = Some reason)
   \<and> (\<forall>uname pid err title pm pc sent.
        extract_linkedin_username host_ok linkedin_url = Some uname
        \<and> get_user_provider_id api uname api_key dsn account_id = Inr (pid, err)
        \<and> (err = None \<or> err = Some [])
        \<and> personalize_templates api uname message_template connection_template api_key dsn
              account_id personalize = Inr (title, pm, pc)
        \<and> send_message api pid pm api_key dsn account_id = Inr sent \<longrightarrow>
        action r = Some ''Message'' \<or> action r = Some ''Connection Request'')"
  (is "_ \<Longrightarrow> ?A \<and> ?B \<and> ?C \<and> ?D")
proof -
  assume run: "process_linkedin_profile host_ok api linkedin_url message_template
     connection_template api_key dsn account_id personalize = Inr r"
  let ?x = "extract_linkedin_username host_ok linkedin_url"
  let ?g = "\<lambda>uname. get_user_provider_id api uname api_key dsn account_id"
  from run show "?A \<and> ?B \<and> ?C \<and> ?D"
  proof (cases rule: process_cases)
    case no_username
    have a: "action r = None" and s: "status r = Some ''Failed''"
      and e: "error r = Some (''Could not extract username from URL: '' @ linkedin_url)"
      unfolding no_username(2) by simp_all
    have A: ?A using a no_username(1) by simp
    have B: ?B using s e by simp
    have C: ?C using no_username(1) by simp
    have D: ?D using no_username(1) by simp
    from A B C D show ?thesis by (intro conjI)
  next
    case (unresolved uname pid reason)
    have a: "action r = None" and s: "status r = Some ''Failed''" and e: "error r = Some reason"
      unfolding unresolved(4) by simp_all
    have A: ?A using a unresolved(1-3) by simp
    have B: ?B using unresolved(1) by simp
    have C: ?C using unresolved(1,2) s e by simp
    have D: ?D using unresolved(1-3) by auto
    from A B C D show ?thesis by (intro conjI)
  next
    case (sent uname pid err title pm pc)
    from deliver_shape [OF sent(5)]
    have act: "action r = Some ''Message'' \<or> action r = Some ''Connection Request''"
      by simp
    then have a: "action r \<noteq> None" by auto
    have no: "False"
      if "?x = Some u" "?g u = Inr (p, Some q)" "q \<noteq> []" for u p q
    proof -
      from that(1) sent(1) have "u = uname" by simp
      with that(2) sent(2) have "err = Some q" by simp
      with that(3) sent(3) show False by simp
    qed
    have A: ?A
    proof
      assume "action r = None"
      with a show "?x = None \<or> (\<exists>uname pid reason. ?x = Some uname \<and> ?g uname = Inr (pid, Some reason) \<and> reason \<noteq> [])"
        by simp
    next
      assume "?x = None \<or> (\<exists>uname pid reason. ?x = Some uname \<and> ?g uname = Inr (pid, Some reason) \<and> reason \<noteq> [])"
      with sent(1) obtain u p q where "?x = Some u" "?g u = Inr (p, Some q)" "q \<noteq> []"
        by auto
      from no [OF this] show "action r = None" ..
    qed
    have B: ?B using sent(1) by simp
    have C: ?C using no by blast
    have D: ?D using act by blast
    from A B C D show ?thesis by (intro conjI)
  qed
qed

lemma acme_not_extracted: "extract_linkedin_username no_ip_literal acme_url = None"
  by code_simp

lemma acme_run:
  "process_linkedin_profile no_ip_literal connected acme_url hello invitation
     ''key'' ''api.unipile.com'' ''acc'' True
   = Inr \<lparr>url = acme_url, username = None, job_title = PyNone, provider_id = PyNone,
           action = None, status = Some ''Failed'',
           error = Some (''Could not extract username from URL: '' @ acme_url)\<rparr>"
  by (rule process_no_username [OF acme_not_extracted])

lemma bob_unresolved:
  "get_user_provider_id without_provider_id ''bob'' ''key'' ''api.unipile.com'' ''acc''
   = Inr (PyNone, Some ''Could not find provider_id in the response'')"
  by code_simp

lemma bob_unresolved_run:
  "process_linkedin_profile no_ip_literal without_provider_id bob_url hello invitation
     ''key'' ''api.unipile.com'' ''acc'' True
   = Inr \<lparr>url = bob_url, username = Some ''bob'', job_title = PyNone, provider_id = PyNone,
           action = None, status = Some ''Failed'',
           error = Some ''Could not find provider_id in the response''\<rparr>"
  by (rule process_unresolved [OF bob_extracted bob_unresolved]) simp

lemma bob_fallback_run:
  "process_linkedin_profile no_ip_literal not_connected bob_url hello invitation
     ''key'' ''api.unipile.com'' ''acc'' True
   = Inr \<lparr>url = bob_url, username = Some ''bob'', job_title = PyStr ''Engineer'',
           provider_id = PyStr ''p_88'', action = Some ''Connection Request'',
           status = Some ''Success'', error = None\<rparr>"
  by code_simp

lemma action_none_on_the_samples:
  "(let r = \<lparr>url = acme_url, username = None, job_title = PyNone, provider_id = PyNone,
              action = None, status = Some ''Failed'',
              error = Some (''Could not extract username from URL: '' @ acme_url)\<rparr>
    in process_linkedin_profile no_ip_literal connected acme_url hello invitation
         ''key'' ''api.unipile.com'' ''acc'' True = Inr r
       \<and> action r = None \<and> status r = Some ''Failed''
       \<and> error r = Some (''Could not extract username from URL: '' @ acme_url))
   \<and> (let r = \<lparr>url = bob_url, username = Some ''bob'', job_title = PyNone, provider_id = PyNone,
              action = None, status = Some ''Failed'',
              error = Some ''Could not find provider_id in the response''\<rparr>
    in process_linkedin_profile no_ip_literal without_provider_id bob_url hello invitation
         ''key'' ''api.unipile.com'' ''acc'' True = Inr r
       \<and> action r = None \<and> status r = Some ''Failed''
       \<and> error r = Some ''Could not find provider_id in the response'')
   \<and> (let r = \<lparr>url = bob_url, username = Some ''bob'', job_title = PyStr ''Engineer'',
           provider_id = PyStr ''p_88'', action = Some ''Connection Request'',
           status = Some ''Success'', error = None\<rparr>
    in process_linkedin_profile no_ip_literal not_connected bob_url hello invitation
         ''key'' ''api.unipile.com'' ''acc'' True = Inr r
       \<and> action r = Some ''Connection Request'')"
proof -
  note a = action_none_when_a_reason_is_given [OF acme_run]
  note b = action_none_when_a_reason_is_given [OF bob_unresolved_run]
  note c = action_none_when_a_reason_is_given [OF bob_fallback_run]
  show ?thesis
    unfolding Let_def using acme_run bob_unresolved_run bob_fallback_run a b c by simp
qed

subsection \<open>C10: the error field\<close>

text \<open>
  C10: for every result record, the error field is set exactly when the status is
  \<open>Failed\<close>; in particular, where the message send fails and the invitation succeeds,
  the reason of the message failure is dropped: the result has the action
  \<open>Connection Request\<close>, the status \<open>Success\<close> and no error.
\<close>

theorem error_iff_failed:
  "process_linkedin_profile host_ok api linkedin_url message_template connection_template
     api_key dsn account_id personalize = Inr r \<Longrightarrow>
   (error r \<noteq> None \<longleftrightarrow> status r = Some ''Failed'')
   \<and> (\<forall>uname pid err title pm pc t t'.
        extract_linkedin_username host_ok linkedin_url = Some uname
        \<and> get_user_provider_id api uname api_key dsn account_id = Inr (pid, err)
        \<and> (err = None \<or> err = Some [])
        \<and> personalize_templates api uname message_template connection_template api_key dsn
              account_id personalize = Inr (title, pm, pc)
        \<and> send_message api pid pm api_key dsn account_id = Inr (False, t)
        \<and> send_connection_request api pid pc api_key dsn account_id = Inr (True, t') \<longrightarrow>
        action r = Some ''Connection Request'' \<and> status r = Some ''Success'' \<and> error r = None)"
  (is "_ \<Longrightarrow> ?A \<and> ?B")
proof -
  assume run: "process_linkedin_profile host_ok api linkedin_url message_template
     connection_template api_key dsn account_id personalize = Inr r"
  have fallback: "action r = Some ''Connection Request'' \<and> status r = Some ''Success'' \<and> error r = None"
    if h: "extract_linkedin_username host_ok linkedin_url = Some uname"
      "get_user_provider_id api uname api_key dsn account_id = Inr (pid, err)"
      "err = None \<or> err = Some []"
      "personalize_templates api uname message_template connection_template api_key dsn
              account_id personalize = Inr (title, pm, pc)"
      "send_message api pid pm api_key dsn account_id = Inr (False, t)"
      "send_connection_request api pid pc api_key dsn account_id = Inr (True, t')"
    for uname pid err title pm pc t t'
  proof -
    let ?base = "\<lparr>url = linkedin_url, username = Some uname, job_title = title,
                   provider_id = pid, action = None, status = None, error = None\<rparr>"
    have "process_linkedin_profile host_ok api linkedin_url message_template
            connection_template api_key dsn account_id personalize
          = deliver api ?base pid pm pc api_key dsn account_id"
      unfolding process_send_stage [OF h(1-3)] h(4) by (simp add: and_then_def)
    also have "\<dots> = Inr (?base\<lparr>action := Some ''Connection Request'', status := Some ''Success''\<rparr>)"
      by (rule deliver_invite [OF h(5,6)])
    finally have "r = ?base\<lparr>action := Some ''Connection Request'', status := Some ''Success''\<rparr>"
      using run by simp
    then show ?thesis by simp
  qed
  then have B: ?B by blast
  from run have A: ?A
  proof (cases rule: process_cases)
    case no_username
    show ?thesis unfolding no_username(2) by simp
  next
    case (unresolved uname pid reason)
    show ?thesis unfolding unresolved(4) by simp
  next
    case (sent uname pid err title pm pc)
    from deliver_shape [OF sent(5)] show ?thesis by simp
  qed
  from A B show "?A \<and> ?B" ..
qed

theorem error_iff_failed_witness:
  "(let r = \<lparr>url = bob_url, username = Some ''bob'', job_title = PyStr ''Engineer'',
           provider_id = PyStr ''p_88'', action = Some ''Connection Request'',
           status = Some ''Success'', error = None\<rparr>
    in process_linkedin_profile no_ip_literal not_connected bob_url hello invitation
         ''key'' ''api.unipile.com'' ''acc'' True = Inr r
       \<and> action r = Some ''Connection Request'' \<and> status r = Some ''Success'' \<and> error r = None)"
proof -
  note w = error_iff_failed [OF bob_fallback_run]
  have none: "(None :: string option) = None \<or> (None :: string option) = Some []" by simp
  from w bob_extracted bob_resolved(2) none bob_templates(2) bob_sends(2) bob_sends(4)
  have "action \<lparr>url = bob_url, username = Some ''bob'', job_title = PyStr ''Engineer'',
           provider_id = PyStr ''p_88'', action = Some ''Connection Request'',
           status = Some ''Success'', error = None\<rparr> = Some ''Connection Request''
        \<and> status \<lparr>url = bob_url, username = Some ''bob'', job_title = PyStr ''Engineer'',
           provider_id = PyStr ''p_88'', action = Some ''Connection Request'',
           status = Some ''Success'', error = None\<rparr> = Some ''Success''
        \<and> error \<lparr>url = bob_url, username = Some ''bob'', job_title = PyStr ''Engineer'',
           provider_id = PyStr ''p_88'', action = Some ''Connection Request'',
           status = Some ''Success'', error = None\<rparr> = None"
    by blast
  with w bob_fallback_run show ?thesis unfolding Let_def by simp
qed

subsection \<open>C5: exceptions and the batch\<close>

text \<open>
  C5 says that, whatever the directory API does, processing one profile never lets an
  exception out of the pipeline, so that the batch always goes on to the next profile.
  The source catches \<open>RequestException\<close> alone in \<open>get_user_provider_id\<close>, and nothing
  around the two \<open>replace\<close> calls. Where the answer to the lookup lists a position whose
  title is \<open>null\<close>, \<open>extract_job_title\<close> returns \<open>None\<close> and
  \<open>replace("{job_title}", None)\<close> raises \<open>TypeError\<close>; where the lookup is answered with a
  JSON list, \<open>data.get\<close> raises \<open>AttributeError\<close>. Either exception leaves
  \<open>process_linkedin_profile\<close>, and the loop of \<open>main\<close>, which has no handler, ends
  before the second profile.
\<close>

theorem exception_leaves_the_batch:
  "process_linkedin_profile no_ip_literal untitled_position bob_url hello invitation
     ''key'' ''api.unipile.com'' ''acc'' True = Inl TypeError
   \<and> process_linkedin_profile no_ip_literal listing bob_url hello invitation
     ''key'' ''api.unipile.com'' ''acc'' True = Inl AttributeError
   \<and> process_all no_ip_literal untitled_position hello invitation
     ''key'' ''api.unipile.com'' ''acc'' True [bob_url, ''https://www.linkedin.com/in/alice''] []
     = Inl TypeError"
  by code_simp

subsection \<open>C9: the job title of a result\<close>








subsection \<open>C3: personalization\<close>

text \<open>
  C3 says that personalization puts, for every \<open>{name}\<close>, the user name with its first
  character in upper case and the other characters unchanged. The source calls
  \<open>username.capitalize()\<close>, which also puts the other characters in lower case: for the
  user name \<open>johnDoe\<close> the text reads \<open>Johndoe\<close>, where the specification has \<open>JohnDoe\<close>.
\<close>

theorem rest_of_the_name_is_lowered:
  "personalized hello ''johnDoe'' (PyStr ''Engineer'')
     = Inr (codes ''Hi Johndoe, you are a Engineer!'')
   \<and> personalize_spec hello ''johnDoe'' ''Engineer'' = codes ''Hi JohnDoe, you are a Engineer!''"
  by code_simp

text \<open>
  The source replaces \<open>{name}\<close> first and \<open>{job_title}\<close> in the text that results, so a
  user name that holds a placeholder is replaced in turn; the amended claim leaves such
  names aside.
\<close>

lemma name_holding_a_placeholder:
  "personalized hello ''{job_title}'' (PyStr ''Engineer'')
     = Inr (codes ''Hi Engineer, you are a Engineer!'')
   \<and> substitute hello (capitalize ''{job_title}'') (codes ''Engineer'')
       = codes ''Hi {job_title}, you are a Engineer!''"
  by code_simp

text \<open>
  The first character of the capitalized name is in title case, which for three
  characters is not an upper case letter below 256: U+00DF gives \<open>Ss\<close>, U+00B5 gives
  U+039C and U+00FF gives U+0178.
\<close>

lemma capitalize_beyond_latin1:
  "capitalize [CHR 0xDF, CHR ''A''] = [83, 115, 97]
   \<and> capitalize [CHR 0xB5, CHR ''A''] = [924, 97]
   \<and> capitalize [CHR 0xFF, CHR ''A''] = [376, 97]
   \<and> capitalize [CHR 0xE9, CHR 0xC9] = [201, 233]"
  by code_simp

text \<open>
  C3 as amended: for every template, every job title and every user name that is not
  empty (no extracted user name is), has no \<open>{\<close> and does not begin with \<open>_\<close> or
  \<open>}\<close>, personalization replaces every literal
  occurrence of \<open>{name}\<close> with the capitalized user name, that is the user name with its
  first character in title case (as \<open>str.capitalize\<close> gives it: the upper case letter,
  but \<open>Ss\<close> for U+00DF) and all its other characters in lower case, and every literal
  occurrence of \<open>{job_title}\<close> with the job title; nothing else is a placeholder and every
  other character passes through unchanged.
\<close>

theorem personalized_replaces_every_placeholder:
  "uname \<noteq> [] \<Longrightarrow> CHR ''{'' \<notin> set uname \<Longrightarrow> hd uname \<noteq> CHR ''_'' \<Longrightarrow> hd uname \<noteq> CHR ''}'' \<Longrightarrow>
   personalized template uname (PyStr title)
   = Inr (substitute template (capitalize uname) (codes title))"
proof -
  assume u: "uname \<noteq> []" "CHR ''{'' \<notin> set uname" "hd uname \<noteq> CHR ''_''" "hd uname \<noteq> CHR ''}''"
  have 1: "capitalize uname \<noteq> []" using u(1) by (rule capitalize_nonempty)
  have 2: "123 \<notin> set (capitalize uname)" using u(2) by (rule brace_capitalize)
  have 3: "hd (capitalize uname) \<notin> set (codes ''job_title}'')"
    using u(1,3,4) by (rule capitalize_outside)
  from sequential_is_simultaneous [OF 1 2 3, of template "codes title"]
  show ?thesis by (simp add: personalized_def)
qed

theorem personalized_replaces_every_placeholder_witness:
  "personalized hello ''bob'' (PyStr ''Engineer'')
     = Inr (substitute hello (capitalize ''bob'') (codes ''Engineer''))
   \<and> substitute hello (capitalize ''bob'') (codes ''Engineer'')
     = codes ''Hi Bob, you are a Engineer!''"
proof -
  have "substitute hello (capitalize ''bob'') (codes ''Engineer'')
        = codes ''Hi Bob, you are a Engineer!''"
    by code_simp
  moreover have "personalized hello ''bob'' (PyStr ''Engineer'')
     = Inr (substitute hello (capitalize ''bob'') (codes ''Engineer''))"
    by (rule personalized_replaces_every_placeholder) simp_all
  ultimately show ?thesis by simp
qed

end
